theory Spec2Isabelle
  imports Complex_Main
begin

section \<open>Data model\<close>

text \<open>
  Tensors are nested lists in row-major order: a rank-2 tensor of shape \<open>[B, S]\<close> is a list
  of \<open>B\<close> rows of length \<open>S\<close>, a rank-3 tensor of shape \<open>[B, S, C]\<close> a list of \<open>B\<close>
  lists of \<open>S\<close> rows of length \<open>C\<close>. Scores are reals, labels and lengths are integers
  (TensorFlow's int32), indices into a tensor are naturals. The theorems are about which
  positions and paths the code selects and how it combines their scores; the rounding of
  float32 arithmetic is not modelled.
\<close>

type_synonym 'a tensor2 = "'a list list"
type_synonym 'a tensor3 = "'a list list list"

text \<open>Errors raised by the Python code or by a TensorFlow operation.\<close>

datatype error = ValueError | AttributeError | TypeError | InvalidArgumentError

text \<open>A float scalar as a reduction returns it: a value, or NaN (the mean of no elements).\<close>

datatype scalar = NaN | Val real

text \<open>\<open>tf.contrib.learn.ModeKeys\<close>.\<close>

datatype mode = TRAIN | EVAL | INFER

text \<open>The concrete classes of \<open>hierarchical_model.py\<close>; \<open>H_RNN_RNN_CRF\<close> extends \<open>H_RNN_RNN\<close>.\<close>

datatype model_class = H_RNN_FFN | H_RNN_RNN | H_RNN_CNN | H_RNN_RNN_CRF

text \<open>The fields of \<open>hparams\<close> that the modelled functions read.\<close>

record hparams =
  model_architecture :: string
  vocab_path :: "string option"
  connect_inp_to_out :: bool

section \<open>main.py\<close>

text \<open>
  \<open>check_hparams\<close>: raises \<open>ValueError\<close> when the architecture is \<open>"h-rnn-rnn"\<close> or
  \<open>"h-cnn-rnn"\<close> and \<open>vocab_path\<close> is \<open>None\<close>; returns normally otherwise.
\<close>

definition check_hparams :: "hparams \<Rightarrow> error + unit" where
  "check_hparams hp =
     (if model_architecture hp = ''h-rnn-rnn'' \<or> model_architecture hp = ''h-cnn-rnn''
      then (if vocab_path hp = None then Inl ValueError else Inr ())
      else Inr ())"

section \<open>hierarchical_model.py: the probabilities accessor\<close>

text \<open>
  What \<open>compute_probabilities\<close> returns: a tensor of per-class probabilities, or the
  operation \<open>tf.no_op()\<close>, which carries no value.
\<close>

datatype probabilities = NoOp | Probs "real tensor3"

text \<open>
  Modelled from the spec: \<open>tf.nn.softmax\<close> is a TensorFlow primitive, not in src/; over
  the class axis (the last one) it is \<open>exp x\<^sub>k / \<Sum>\<^sub>j exp x\<^sub>j\<close>.
\<close>

definition softmax :: "real list \<Rightarrow> real list" where
  "softmax xs = map (\<lambda>x. exp x / sum_list (map exp xs)) xs"

text \<open>\<open>HModel.compute_probabilities\<close>, and its override in \<open>H_RNN_RNN_CRF\<close>.\<close>

definition hmodel_compute_probabilities :: "real tensor3 \<Rightarrow> probabilities" where
  "hmodel_compute_probabilities logits = Probs (map (map softmax) logits)"

definition crf_compute_probabilities :: "real tensor3 \<Rightarrow> probabilities" where
  "crf_compute_probabilities logits = NoOp"

text \<open>Method resolution: only \<open>H_RNN_RNN_CRF\<close> overrides the accessor.\<close>

fun compute_probabilities :: "model_class \<Rightarrow> real tensor3 \<Rightarrow> probabilities" where
  "compute_probabilities H_RNN_RNN_CRF logits = crf_compute_probabilities logits"
| "compute_probabilities _ logits = hmodel_compute_probabilities logits"

section \<open>TensorFlow primitives\<close>

text \<open>
  The operations of TensorFlow that the model calls are library code. Each is written
  here as a function on nested lists, with the failure it has on the CPU as an error value.
\<close>

text \<open>Results of a list of fallible computations: the first error, or all the values.\<close>

fun collect :: "(error + 'a) list \<Rightarrow> error + 'a list" where
  "collect [] = Inr []"
| "collect (r # rs) =
     (case r of
        Inl e \<Rightarrow> Inl e
      | Inr x \<Rightarrow> (case collect rs of Inl e \<Rightarrow> Inl e | Inr xs \<Rightarrow> Inr (x # xs)))"

text \<open>
  Modelled from the spec: \<open>model_helper.get_tensor_dim\<close> is not in src/; it gives the size
  of one axis of a tensor. Axis 1 of a rank-2 or rank-3 tensor, and the last axis of a
  rank-3 and of a rank-2 tensor.
\<close>

definition tensor_dim1 :: "'a list list \<Rightarrow> nat" where
  "tensor_dim1 t = (case t of [] \<Rightarrow> 0 | r # _ \<Rightarrow> length r)"

definition tensor_dim_last3 :: "'a tensor3 \<Rightarrow> nat" where
  "tensor_dim_last3 t = tensor_dim1 (concat t)"

definition tensor_dim_last2 :: "'a tensor2 \<Rightarrow> nat" where
  "tensor_dim_last2 t = tensor_dim1 t"

text \<open>
  Modelled from the spec: \<open>tf.reshape\<close> is a TensorFlow primitive, not in src/. It keeps
  the elements in row-major order and regroups them: \<open>split_rows cnt n\<close> cuts a flat
  list into \<open>cnt\<close> consecutive rows of \<open>n\<close> elements. \<open>reshape_rows flat u\<close> is
  \<open>tf.reshape(t, [-1, u])\<close> and \<open>reshape_3d flat b s d\<close> is \<open>tf.reshape(t, [b, s, d])\<close>,
  on the flattened elements of \<open>t\<close>; a shape that does not fit the number of elements is
  an error.
\<close>

definition split_rows :: "nat \<Rightarrow> nat \<Rightarrow> 'a list \<Rightarrow> 'a list list" where
  "split_rows cnt n xs = map (\<lambda>k. take n (drop (k * n) xs)) [0..<cnt]"

definition reshape_rows :: "'a list \<Rightarrow> nat \<Rightarrow> error + 'a tensor2" where
  "reshape_rows flat u =
     (if u = 0 \<or> length flat mod u \<noteq> 0 then Inl InvalidArgumentError
      else Inr (split_rows (length flat div u) u flat))"

definition reshape_3d :: "'a list \<Rightarrow> nat \<Rightarrow> nat \<Rightarrow> nat \<Rightarrow> error + 'a tensor3" where
  "reshape_3d flat b s d =
     (if length flat \<noteq> b * s * d then Inl InvalidArgumentError
      else Inr (split_rows b s (split_rows (b * s) d flat)))"

text \<open>
  Modelled from the spec: \<open>tf.concat(values, axis=-1)\<close> of two rank-3 tensors, not in
  src/: the rows are joined position by position; the leading axes must agree.
\<close>

definition concat_last :: "'a tensor3 \<Rightarrow> 'a tensor3 \<Rightarrow> error + 'a tensor3" where
  "concat_last a b =
     (if map length a \<noteq> map length b then Inl InvalidArgumentError
      else Inr (map2 (map2 (@)) a b))"

text \<open>
  Modelled from the spec: \<open>tf.nn.sparse_softmax_cross_entropy_with_logits\<close> is a
  TensorFlow primitive, not in src/. At each position it is the negative log of the
  softmax probability of the label, \<open>ln (\<Sum>\<^sub>k exp x\<^sub>k) - x\<^sub>l\<close>. A label outside
  \<open>[0, num_classes)\<close> at any position, padding included, raises on the CPU; the shapes of
  labels and logits must agree on the leading axes.
\<close>

definition xent :: "real list \<Rightarrow> int \<Rightarrow> error + real" where
  "xent row l =
     (if 0 \<le> l \<and> l < int (length row)
      then Inr (ln (sum_list (map exp row)) - row ! nat l)
      else Inl InvalidArgumentError)"

definition sparse_softmax_cross_entropy_with_logits ::
    "int tensor2 \<Rightarrow> real tensor3 \<Rightarrow> error + real tensor2" where
  "sparse_softmax_cross_entropy_with_logits labels logits =
     (if map length labels \<noteq> map length logits then Inl InvalidArgumentError
      else collect (map (\<lambda>(ls, rows). collect (map (\<lambda>(l, row). xent row l) (zip ls rows)))
                        (zip labels logits)))"

text \<open>
  Modelled from the spec: \<open>tf.sequence_mask(lengths, maxlen)\<close>, not in src/: row \<open>i\<close> is
  true at position \<open>j\<close> iff \<open>j < lengths[i]\<close>. With \<open>dtype\<close> a float type the entries are
  \<open>1.0\<close> and \<open>0.0\<close> instead (\<open>of_bool\<close>).
\<close>

definition sequence_mask :: "int list \<Rightarrow> nat \<Rightarrow> bool tensor2" where
  "sequence_mask lengths maxlen = map (\<lambda>n. map (\<lambda>j. int j < n) [0..<maxlen]) lengths"

text \<open>
  Modelled from the spec: \<open>tf.boolean_mask(tensor, mask)\<close>, not in src/: the elements of
  the tensor at the positions where the mask holds, in row-major order, as a rank-1
  tensor. The mask must have the tensor's shape. A numeric mask holds where it is not
  zero, so the function takes the reading \<open>on\<close> of a mask entry.
\<close>

definition boolean_mask_on :: "('m \<Rightarrow> bool) \<Rightarrow> 'a tensor2 \<Rightarrow> 'm tensor2 \<Rightarrow> error + 'a list" where
  "boolean_mask_on on t m =
     (if map length t \<noteq> map length m then Inl InvalidArgumentError
      else Inr (map fst (filter (\<lambda>(x, b). on b) (zip (concat t) (concat m)))))"

text \<open>
  Modelled from the spec: \<open>tf.reduce_mean\<close> of a rank-1 tensor, not in src/: the sum
  divided by the number of elements; of no elements it is NaN (0/0), not an error.
\<close>

definition reduce_mean :: "real list \<Rightarrow> scalar" where
  "reduce_mean xs = (if xs = [] then NaN else Val (sum_list xs / real (length xs)))"

text \<open>
  Modelled from the spec: \<open>tf.argmax\<close> and \<open>tf.reduce_max\<close> over one axis, not in src/.
  \<open>argmax\<close> is the first index of the largest entry. Both are used on a class axis, which
  is not empty; the equations for \<open>[]\<close> only make the functions total.
\<close>

fun argmax :: "real list \<Rightarrow> nat" where
  "argmax [] = 0"
| "argmax [x] = 0"
| "argmax (x # y # ys) = (let i = argmax (y # ys) in if x < (y # ys) ! i then Suc i else 0)"

fun reduce_max :: "real list \<Rightarrow> real" where
  "reduce_max [] = 0"
| "reduce_max [x] = x"
| "reduce_max (x # y # ys) = max x (reduce_max (y # ys))"

definition reduce_logsumexp :: "real list \<Rightarrow> real" where
  "reduce_logsumexp xs = ln (sum_list (map exp xs))"

text \<open>
  Modelled from the spec: \<open>tf.contrib.crf.crf_log_likelihood\<close> is TensorFlow library
  code, not in src/. For one session with potentials \<open>inputs\<close> (one row of class scores
  per position), tags \<open>tags\<close>, length \<open>n\<close> and transition matrix \<open>T\<close>, the log-likelihood is
  the score of the tag path minus the log of the partition function. The path's score is
  the sum of the unary scores \<open>inputs[j][tags[j]]\<close> and of the transition scores
  \<open>T[tags[j]][tags[j+1]]\<close>, each multiplied by the float sequence mask. The partition
  function is computed by the forward recursion, run over the first \<open>n - 1\<close> positions
  after the first one, and is masked to \<open>0\<close> for a length \<open>n \<le> 0\<close>. The potentials need
  at least one position, and tags outside \<open>[0, num_tags)\<close> are outside the domain of the
  gather operations: both are reported as \<open>InvalidArgumentError\<close>.
\<close>

definition crf_unary_score :: "int list \<Rightarrow> int \<Rightarrow> real tensor2 \<Rightarrow> real" where
  "crf_unary_score tags n inputs =
     sum_list (map (\<lambda>j. inputs ! j ! nat (tags ! j) * of_bool (int j < n)) [0..<length tags])"

definition crf_binary_score :: "int list \<Rightarrow> int \<Rightarrow> real tensor2 \<Rightarrow> real" where
  "crf_binary_score tags n T =
     sum_list (map (\<lambda>j. T ! nat (tags ! j) ! nat (tags ! Suc j) * of_bool (int (Suc j) < n))
                   [0..<length tags - 1])"

definition crf_forward_cell :: "real tensor2 \<Rightarrow> real list \<Rightarrow> real list \<Rightarrow> real list" where
  "crf_forward_cell T x state =
     map (\<lambda>k. x ! k + reduce_logsumexp (map (\<lambda>k'. state ! k' + T ! k' ! k) [0..<length T]))
         [0..<length T]"

definition crf_log_norm :: "real tensor2 \<Rightarrow> int \<Rightarrow> real tensor2 \<Rightarrow> real" where
  "crf_log_norm inputs n T =
     (if n \<le> 0 then 0
      else reduce_logsumexp
             (foldl (\<lambda>state x. crf_forward_cell T x state) (hd inputs)
                    (take (nat n - 1) (tl inputs))))"

definition crf_session_log_likelihood ::
    "real tensor2 \<Rightarrow> real tensor2 \<Rightarrow> int list \<Rightarrow> int \<Rightarrow> error + real" where
  "crf_session_log_likelihood T inputs tags n =
     (if inputs = [] \<or> \<not> list_all (\<lambda>t. 0 \<le> t \<and> t < int (length T)) tags
      then Inl InvalidArgumentError
      else Inr (crf_unary_score tags n inputs + crf_binary_score tags n T
                - crf_log_norm inputs n T))"

definition crf_log_likelihood ::
    "real tensor3 \<Rightarrow> int tensor2 \<Rightarrow> int list \<Rightarrow> real tensor2 \<Rightarrow> error + real list" where
  "crf_log_likelihood inputs tag_indices sequence_lengths T =
     (if map length tag_indices \<noteq> map length inputs
         \<or> length sequence_lengths \<noteq> length inputs
      then Inl InvalidArgumentError
      else collect (map (\<lambda>(x, tags, n). crf_session_log_likelihood T x tags n)
                        (zip inputs (zip tag_indices sequence_lengths))))"

text \<open>
  Modelled from the spec: \<open>tf.contrib.crf.crf_decode\<close> is TensorFlow library code, not in
  src/; it is the max-scoring path search of the spec, written as the library runs it.
  The forward cell adds the transition scores to the state, keeps the largest sum per
  tag with its \<open>argmax\<close> as backpointer, and is run over the \<open>n - 1\<close> positions after the
  first (the positions beyond give zeros). The backward pass starts at the \<open>argmax\<close> of
  the last scores and follows the reversed backpointers; \<open>reverse_sequence\<close> reverses the
  first \<open>n\<close> entries of a row and keeps the rest. A length below \<open>0\<close> or above the number
  of positions is an error, and so are potentials with no position.
\<close>

definition crf_decode_forward_cell ::
    "real tensor2 \<Rightarrow> real list \<Rightarrow> real list \<Rightarrow> nat list \<times> real list" where
  "crf_decode_forward_cell T x state =
     (let transition_scores = (\<lambda>k. map (\<lambda>k'. state ! k' + T ! k' ! k) [0..<length T])
      in (map (\<lambda>k. argmax (transition_scores k)) [0..<length T],
          map (\<lambda>k. x ! k + reduce_max (transition_scores k)) [0..<length T]))"

fun crf_decode_forward ::
    "real tensor2 \<Rightarrow> real list \<Rightarrow> real tensor2 \<Rightarrow> nat tensor2 \<times> real list" where
  "crf_decode_forward T state [] = ([], state)"
| "crf_decode_forward T state (x # xs) =
     (case crf_decode_forward_cell T x state of
        (bp, state') \<Rightarrow>
          (case crf_decode_forward T state' xs of
             (bps, last_score) \<Rightarrow> (bp # bps, last_score)))"

fun crf_decode_backward :: "nat \<Rightarrow> nat tensor2 \<Rightarrow> nat list" where
  "crf_decode_backward state [] = []"
| "crf_decode_backward state (bp # bps) = bp ! state # crf_decode_backward (bp ! state) bps"

definition reverse_sequence :: "'a list \<Rightarrow> nat \<Rightarrow> 'a list" where
  "reverse_sequence xs n = rev (take n xs) @ drop n xs"

definition crf_decode_session :: "real tensor2 \<Rightarrow> real tensor2 \<Rightarrow> int \<Rightarrow> error + int list" where
  "crf_decode_session T potentials n =
     (case potentials of
        [] \<Rightarrow> Inl InvalidArgumentError
      | initial_state # inputs \<Rightarrow>
          if n < 0 \<or> int (length potentials) < n then Inl InvalidArgumentError
          else
            (let m = nat (max 0 (n - 1));
                 (bps, last_score) = crf_decode_forward T initial_state (take m inputs);
                 backpointers =
                   reverse_sequence (bps @ replicate (length inputs - m) (replicate (length T) 0)) m;
                 initial_tag = argmax last_score;
                 tags = crf_decode_backward initial_tag (take m backpointers)
                        @ replicate (length inputs - m) 0;
                 decode_tags = reverse_sequence (initial_tag # tags) (nat n)
             in Inr (map int decode_tags)))"

definition crf_decode :: "real tensor3 \<Rightarrow> real tensor2 \<Rightarrow> int list \<Rightarrow> error + int tensor2" where
  "crf_decode potentials T sequence_length =
     (if length sequence_length \<noteq> length potentials then Inl InvalidArgumentError
      else collect (map (\<lambda>(p, n). crf_decode_session T p n) (zip potentials sequence_length)))"

section \<open>hierarchical_model.py\<close>

text \<open>
  The batch that the iterator supplies: \<open>input\<close> of shape
  \<open>[batch_size, max_sess_length, max_uttr_length]\<close>, \<open>target\<close> of shape
  \<open>[batch_size, max_sess_length]\<close>, and the two length tensors.
\<close>

record 'a iterator =
  input :: "'a tensor3"
  target :: "int tensor2"
  input_sess_length :: "int list"
  input_uttr_length :: "int tensor2"

text \<open>
  The attributes of a model instance that the methods read or assign. \<open>None\<close> is an
  attribute that has not been assigned: reading it raises \<open>AttributeError\<close>.
\<close>

record model =
  batch_size :: nat
  mode :: mode
  self_logits :: "real tensor3 option"
  transition_params :: "real tensor2 option"

text \<open>
  The layers that \<open>build_network\<close> calls and that are defined outside
  \<open>hierarchical_model.py\<close> (\<open>model_helper\<close>, \<open>BaseModel.output_layer\<close>) are parameters.
\<close>

record 'a layers =
  utterance_encoder :: "hparams \<Rightarrow> 'a tensor2 \<Rightarrow> real tensor2"
  session_encoder :: "hparams \<Rightarrow> real tensor3 \<Rightarrow> real tensor3"
  output_layer :: "hparams \<Rightarrow> real tensor3 \<Rightarrow> real tensor3"

subsection \<open>HModel\<close>

definition hmodel_compute_loss :: "'a iterator \<Rightarrow> real tensor3 \<Rightarrow> error + scalar" where
  "hmodel_compute_loss it logits =
     (let target_output = target it in
      case sparse_softmax_cross_entropy_with_logits target_output logits of
        Inl e \<Rightarrow> Inl e
      | Inr crossent \<Rightarrow>
          (let mask = map (map of_bool)
                        (sequence_mask (input_sess_length it) (tensor_dim1 target_output))
           in case boolean_mask_on (\<lambda>m. m \<noteq> (0::real)) crossent mask of
                Inl e \<Rightarrow> Inl e
              | Inr crossent_masked \<Rightarrow> Inr (reduce_mean crossent_masked)))"

text \<open>\<open>tf.equal\<close> compares two tensors of one shape position by position.\<close>

definition hmodel_compute_accuracy :: "'a iterator \<Rightarrow> int tensor2 \<Rightarrow> error + scalar" where
  "hmodel_compute_accuracy it labels =
     (let target_output = target it in
      if map length labels \<noteq> map length target_output then Inl InvalidArgumentError
      else
        (let correct_pred = map2 (map2 (\<lambda>l t. l = t)) labels target_output;
             correct_pred = map (map of_bool) correct_pred;
             mask = sequence_mask (input_sess_length it) (tensor_dim1 target_output)
         in case boolean_mask_on (\<lambda>b. b) correct_pred mask of
              Inl e \<Rightarrow> Inl e
            | Inr correct_pred_masked \<Rightarrow> Inr (reduce_mean correct_pred_masked)))"

definition hmodel_compute_labels :: "real tensor3 \<Rightarrow> error + int tensor2" where
  "hmodel_compute_labels logits =
     (case hmodel_compute_probabilities logits of
        Probs p \<Rightarrow> Inr (map (map (\<lambda>row. int (argmax row))) p)
      | NoOp \<Rightarrow> Inl TypeError)"

subsection \<open>H_RNN_RNN_CRF\<close>

text \<open>
  \<open>compute_loss\<close> assigns \<open>self.transition_params\<close>: the variable \<open>transitions\<close> that
  \<open>crf_log_likelihood\<close> creates, whose value is the parameter \<open>transitions\<close> here.
  \<open>compute_labels\<close> reads \<open>self.logits\<close> and \<open>self.transition_params\<close>, not its argument.
\<close>

definition crf_compute_loss ::
    "real tensor2 \<Rightarrow> model \<Rightarrow> 'a iterator \<Rightarrow> real tensor3 \<Rightarrow> error + scalar \<times> model" where
  "crf_compute_loss transitions self it logits =
     (let target_output = target it in
      case crf_log_likelihood logits target_output (input_sess_length it) transitions of
        Inl e \<Rightarrow> Inl e
      | Inr log_likelihood \<Rightarrow>
          Inr (reduce_mean (map uminus log_likelihood),
               self\<lparr>transition_params := Some transitions\<rparr>))"

definition crf_compute_labels ::
    "model \<Rightarrow> 'a iterator \<Rightarrow> real tensor3 \<Rightarrow> error + int tensor2" where
  "crf_compute_labels self it logits =
     (case self_logits self of
        None \<Rightarrow> Inl AttributeError
      | Some lg \<Rightarrow>
          (case transition_params self of
             None \<Rightarrow> Inl AttributeError
           | Some tp \<Rightarrow> crf_decode lg tp (input_sess_length it)))"

subsection \<open>Method resolution\<close>

fun compute_loss ::
    "model_class \<Rightarrow> real tensor2 \<Rightarrow> model \<Rightarrow> 'a iterator \<Rightarrow> real tensor3
      \<Rightarrow> error + scalar \<times> model" where
  "compute_loss H_RNN_RNN_CRF transitions self it logits =
     crf_compute_loss transitions self it logits"
| "compute_loss _ transitions self it logits =
     (case hmodel_compute_loss it logits of Inl e \<Rightarrow> Inl e | Inr loss \<Rightarrow> Inr (loss, self))"

fun compute_labels ::
    "model_class \<Rightarrow> model \<Rightarrow> 'a iterator \<Rightarrow> real tensor3 \<Rightarrow> error + int tensor2" where
  "compute_labels H_RNN_RNN_CRF self it logits = crf_compute_labels self it logits"
| "compute_labels _ self it logits = hmodel_compute_labels logits"

subsection \<open>HModel.build_network\<close>

definition reshape_input :: "'a iterator \<Rightarrow> error + 'a tensor2" where
  "reshape_input it =
     reshape_rows (concat (concat (input it))) (tensor_dim_last3 (input it))"

definition reshape_utterances_embs ::
    "model \<Rightarrow> 'a iterator \<Rightarrow> real tensor2 \<Rightarrow> error + real tensor3" where
  "reshape_utterances_embs self it utterances_embs =
     reshape_3d (concat utterances_embs) (batch_size self) (tensor_dim1 (input it))
                (tensor_dim_last2 utterances_embs)"

definition build_network ::
    "model_class \<Rightarrow> 'a layers \<Rightarrow> real tensor2 \<Rightarrow> hparams \<Rightarrow> model \<Rightarrow> 'a iterator
      \<Rightarrow> error + real tensor3 \<times> scalar option \<times> model" where
  "build_network cls L transitions hp self it =
     (case reshape_input it of
        Inl e \<Rightarrow> Inl e
      | Inr reshape_inp \<Rightarrow>
          (let utterances_embs = utterance_encoder L hp reshape_inp in
           case reshape_utterances_embs self it utterances_embs of
             Inl e \<Rightarrow> Inl e
           | Inr reshape_embs \<Rightarrow>
               (let session_rnn_outputs = session_encoder L hp reshape_embs in
                case (if connect_inp_to_out hp
                      then concat_last reshape_embs session_rnn_outputs
                      else Inr session_rnn_outputs) of
                  Inl e \<Rightarrow> Inl e
                | Inr session_rnn_outputs \<Rightarrow>
                    (let logits = output_layer L hp session_rnn_outputs in
                     if mode self = INFER then Inr (logits, None, self)
                     else
                       (case compute_loss cls transitions self it logits of
                          Inl e \<Rightarrow> Inl e
                        | Inr (loss, self') \<Rightarrow> Inr (logits, Some loss, self'))))))"

section \<open>Specification\<close>

text \<open>
  The cross-entropy of one position, for a label in range: what
  \<open>sparse_softmax_cross_entropy_with_logits\<close> gives there.
\<close>

definition cross_entropy :: "real list \<Rightarrow> int \<Rightarrow> real" where
  "cross_entropy row l = ln (sum_list (map exp row)) - row ! nat l"

text \<open>
  The valid positions of a batch with \<open>S\<close> positions per session, in row-major order:
  position \<open>j\<close> of session \<open>i\<close> is valid iff \<open>j < session_lengths[i]\<close>.
\<close>

definition valid_positions :: "int list \<Rightarrow> nat \<Rightarrow> (nat \<times> nat) list" where
  "valid_positions lengths S =
     filter (\<lambda>(i, j). int j < lengths ! i) (List.product [0..<length lengths] [0..<S])"

text \<open>
  Labels and logits agree in shape on the leading axes, and every label, padding
  included, is a class index of its row of logits.
\<close>

definition labels_in_range :: "int tensor2 \<Rightarrow> real tensor3 \<Rightarrow> bool" where
  "labels_in_range labels logits =
     list_all2 (list_all2 (\<lambda>l row. 0 \<le> l \<and> l < int (length row))) labels logits"

text \<open>
  Two rank-2 tensors (or two rank-3 tensors, read as tensors of rows) agree on the valid
  positions: they may differ at the padding positions only.
\<close>

definition agree_on_valid :: "int list \<Rightarrow> nat \<Rightarrow> 'a tensor2 \<Rightarrow> 'a tensor2 \<Rightarrow> bool" where
  "agree_on_valid lengths S a b =
     list_all (\<lambda>(i, j). a ! i ! j = b ! i ! j) (valid_positions lengths S)"

text \<open>
  A well-shaped batch for \<open>K\<close> classes and \<open>S\<close> positions per session: one length per
  session, target of shape \<open>[B, S]\<close> with labels in \<open>[0, K)\<close> at every position, logits
  of shape \<open>[B, S, K]\<close>.
\<close>

definition wf_batch :: "nat \<Rightarrow> nat \<Rightarrow> 'a iterator \<Rightarrow> real tensor3 \<Rightarrow> bool" where
  "wf_batch K S it logits \<longleftrightarrow>
     length (input_sess_length it) = length (target it)
     \<and> length logits = length (target it)
     \<and> list_all (\<lambda>r. length r = S \<and> list_all (\<lambda>l. 0 \<le> l \<and> l < int K) r) (target it)
     \<and> list_all (\<lambda>s. length s = S \<and> list_all (\<lambda>row. length row = K) s) logits"

text \<open>
  A list without its element at index \<open>i\<close>, and a batch without its session \<open>i\<close>.
\<close>

definition drop_nth :: "nat \<Rightarrow> 'a list \<Rightarrow> 'a list" where
  "drop_nth i xs = take i xs @ drop (Suc i) xs"

definition remove_session :: "nat \<Rightarrow> 'a iterator \<Rightarrow> 'a iterator" where
  "remove_session i it =
     it\<lparr>input := drop_nth i (input it), target := drop_nth i (target it),
        input_sess_length := drop_nth i (input_sess_length it),
        input_uttr_length := drop_nth i (input_uttr_length it)\<rparr>"

text \<open>
  The total score of a label path \<open>p\<close> for one session with class scores \<open>x\<close> and
  transition matrix \<open>T\<close>: the sum of the per-position class scores plus the pairwise
  transition scores along the path.
\<close>

definition path_score :: "real tensor2 \<Rightarrow> real tensor2 \<Rightarrow> nat list \<Rightarrow> real" where
  "path_score T x p =
     sum_list (map (\<lambda>j. x ! j ! (p ! j)) [0..<length p])
     + sum_list (map (\<lambda>j. T ! (p ! j) ! (p ! Suc j)) [0..<length p - 1])"

text \<open>
  A label path of length \<open>n\<close> over \<open>K\<close> classes.
\<close>

definition is_path :: "nat \<Rightarrow> nat \<Rightarrow> nat list \<Rightarrow> bool" where
  "is_path K n p \<longleftrightarrow> length p = n \<and> list_all (\<lambda>t. t < K) p"

text \<open>
  The score of a path in the form the forward recursion builds it: \<open>tail_score\<close> adds the
  transitions and class scores after a first label, \<open>start_score\<close> starts from a vector of
  scores for the first label.
\<close>

fun tail_score :: "real tensor2 \<Rightarrow> nat \<Rightarrow> real tensor2 \<Rightarrow> nat list \<Rightarrow> real" where
  "tail_score T a (x # xs) (b # p) = T ! a ! b + x ! b + tail_score T b xs p"
| "tail_score T a xs p = 0"

definition start_score :: "real tensor2 \<Rightarrow> real list \<Rightarrow> real tensor2 \<Rightarrow> nat list \<Rightarrow> real" where
  "start_score T \<alpha> xs p = \<alpha> ! hd p + tail_score T (hd p) xs (tl p)"

text \<open>
  The path that the backward pass reads from the backpointers, ending at label \<open>t\<close>.
\<close>

definition backtrack :: "nat tensor2 \<Rightarrow> nat \<Rightarrow> nat list" where
  "backtrack bps t = rev (t # crf_decode_backward t (rev bps))"

text \<open>
  Well-shaped arguments of the decoder: a square transition matrix over at least one
  class, and per session at least one position, rows of \<open>num_tags\<close> scores, and a length
  between 0 and the number of positions.
\<close>

definition wf_decode :: "real tensor2 \<Rightarrow> real tensor3 \<Rightarrow> int list \<Rightarrow> bool" where
  "wf_decode T potentials lengths \<longleftrightarrow>
     0 < length T \<and> list_all (\<lambda>r. length r = length T) T
     \<and> list_all2 (\<lambda>x n. x \<noteq> [] \<and> list_all (\<lambda>row. length row = length T) x
                         \<and> 0 \<le> n \<and> n \<le> int (length x)) potentials lengths"

section \<open>Theorems\<close>

subsection \<open>Row-major reshaping\<close>

lemma drop_concat_rect:
  "\<forall>r\<in>set xss. length r = n \<Longrightarrow> k \<le> length xss \<Longrightarrow> drop (k * n) (concat xss) = concat (drop k xss)"
proof (induction xss arbitrary: k)
  case Nil
  then show ?case by simp
next
  case (Cons x xss)
  show ?case
  proof (cases k)
    case 0
    then show ?thesis by simp
  next
    case (Suc k')
    with Cons show ?thesis by simp
  qed
qed

lemma split_rows_concat:
  assumes "\<forall>r\<in>set xss. length r = n"
  shows "split_rows (length xss) n (concat xss) = xss"
proof (rule nth_equalityI)
  show "length (split_rows (length xss) n (concat xss)) = length xss"
    by (simp add: split_rows_def)
next
  fix k assume "k < length (split_rows (length xss) n (concat xss))"
  then have k: "k < length xss" by (simp add: split_rows_def)
  then have "drop k xss = xss ! k # drop (Suc k) xss"
    by (simp add: Cons_nth_drop_Suc)
  moreover have "length (xss ! k) = n" using assms k by simp
  ultimately have "take n (concat (drop k xss)) = xss ! k" by simp
  with k assms show "split_rows (length xss) n (concat xss) ! k = xss ! k"
    by (simp add: split_rows_def drop_concat_rect)
qed

lemma length_concat_rect:
  "\<forall>r\<in>set xss. length r = n \<Longrightarrow> length (concat xss) = length xss * n"
  by (induction xss) auto

lemma concat_nth_rect:
  "\<forall>r\<in>set xss. length r = n \<Longrightarrow> i < length xss \<Longrightarrow> j < n
    \<Longrightarrow> concat xss ! (i * n + j) = xss ! i ! j"
proof (induction xss arbitrary: i)
  case Nil
  then show ?case by simp
next
  case (Cons x xss)
  show ?case
  proof (cases i)
    case 0
    with Cons.prems show ?thesis by (simp add: nth_append)
  next
    case (Suc i')
    with Cons show ?thesis by (simp add: nth_append)
  qed
qed

lemma split_rows_nth:
  "i < b \<Longrightarrow> j < s \<Longrightarrow> (i * s + j) < length xs \<Longrightarrow> split_rows b s xs ! i ! j = xs ! (i * s + j)"
  by (simp add: split_rows_def)

lemma tensor_dim1_rect:
  "\<forall>r\<in>set xss. length r = n \<Longrightarrow> xss \<noteq> [] \<Longrightarrow> tensor_dim1 xss = n"
  by (cases xss) (auto simp: tensor_dim1_def)

lemma reshape_input_concat:
  assumes "\<forall>s\<in>set (input it). length s = S"
    and "\<forall>s\<in>set (input it). \<forall>u\<in>set s. length u = U"
    and "0 < U" and "input it \<noteq> []" and "0 < S"
  shows "reshape_input it = Inr (concat (input it))"
proof -
  let ?us = "concat (input it)"
  have rect: "\<forall>u\<in>set ?us. length u = U" using assms(2) by auto
  have len: "length ?us = length (input it) * S"
    using assms(1) by (rule length_concat_rect)
  have "0 < length (input it) * S" using assms(4,5) by simp
  with len have "0 < length ?us" by (simp only:)
  then have ne: "?us \<noteq> []" by (rule length_greater_0_conv[THEN iffD1])
  have dim: "tensor_dim_last3 (input it) = U"
    unfolding tensor_dim_last3_def using rect ne by (rule tensor_dim1_rect)
  have flat: "length (concat ?us) = length ?us * U"
    using rect by (rule length_concat_rect)
  have "split_rows (length (concat ?us) div U) U (concat ?us) = ?us"
    using split_rows_concat[OF rect] flat assms(3) by simp
  then show ?thesis
    using flat assms(3) by (simp add: reshape_input_def reshape_rows_def dim)
qed

lemma reshape_utterances_embs_split:
  assumes "length embs = batch_size self * S" and "\<forall>r\<in>set embs. length r = d"
    and "tensor_dim1 (input it) = S" and "embs \<noteq> []"
  shows "reshape_utterances_embs self it embs = Inr (split_rows (batch_size self) S embs)"
proof -
  have dim: "tensor_dim_last2 embs = d"
    unfolding tensor_dim_last2_def using assms(2,4) by (rule tensor_dim1_rect)
  have flat: "length (concat embs) = batch_size self * S * d"
    using length_concat_rect[OF assms(2)] assms(1) by simp
  have "split_rows (batch_size self * S) d (concat embs) = embs"
    using split_rows_concat[OF assms(2)] assms(1) by simp
  then show ?thesis
    by (simp add: reshape_utterances_embs_def reshape_3d_def dim assms(3) flat)
qed

text \<open>
  C8. The reshape between utterance and session granularity keeps the row-major order:
  for a batch of \<open>B\<close> sessions of \<open>S\<close> utterances, utterance \<open>j\<close> of session \<open>i\<close> is row
  \<open>i * S + j\<close> of the flattened input, and reshaping \<open>B * S\<close> embedding rows back to
  \<open>[B, S, d]\<close> puts row \<open>i * S + j\<close> at position \<open>(i, j)\<close>.
\<close>

theorem reshape_row_major:
  assumes "length (input it) = B" and "\<forall>s\<in>set (input it). length s = S"
    and "\<forall>s\<in>set (input it). \<forall>u\<in>set s. length u = U" and "0 < U"
    and "batch_size self = B"
    and "length embs = B * S" and "\<forall>r\<in>set embs. length r = d"
    and "i < B" and "j < S"
  shows "\<exists>rin rout. reshape_input it = Inr rin \<and> length rin = B * S
           \<and> rin ! (i * S + j) = input it ! i ! j
           \<and> reshape_utterances_embs self it embs = Inr rout
           \<and> length rout = B \<and> length (rout ! i) = S
           \<and> rout ! i ! j = embs ! (i * S + j)"
proof -
  have ne: "input it \<noteq> []" and S: "0 < S" using assms(1,8,9) by auto
  have rin: "reshape_input it = Inr (concat (input it))"
    using assms(2,3,4) ne S by (rule reshape_input_concat)
  have len: "length (concat (input it)) = B * S"
    using length_concat_rect[OF assms(2)] assms(1) by simp
  have nth: "concat (input it) ! (i * S + j) = input it ! i ! j"
    using assms(2) _ assms(9) by (rule concat_nth_rect) (simp add: assms(1,8))
  have dim: "tensor_dim1 (input it) = S"
    using assms(2) ne by (rule tensor_dim1_rect)
  have le: "Suc i * S \<le> B * S" using assms(8) by (intro mult_le_mono1) simp
  have "i * S + j < Suc i * S" using assms(9) by simp
  then have "i * S + j < B * S" using le by (rule less_le_trans)
  then have idx: "i * S + j < length embs" using assms(6) by simp
  then have ene: "embs \<noteq> []" by auto
  have rout: "reshape_utterances_embs self it embs = Inr (split_rows B S embs)"
    using reshape_utterances_embs_split[of embs self S d it] assms(5,6,7) dim ene by simp
  have "split_rows B S embs ! i ! j = embs ! (i * S + j)"
    using assms(8,9) idx by (rule split_rows_nth)
  moreover have "length (split_rows B S embs) = B" by (simp add: split_rows_def)
  moreover have "length (split_rows B S embs ! i) = S"
  proof -
    have "S \<le> B * S - i * S" using le by simp
    then show ?thesis using assms(6,8) by (simp add: split_rows_def)
  qed
  ultimately show ?thesis using rin len nth rout by simp
qed


theorem reshape_row_major_witness:
  "\<exists>rin rout.
     reshape_input \<lparr>input = [[[1, 2], [3, 4]], [[5, 6], [7, 8::int]]], target = [],
                     input_sess_length = [], input_uttr_length = []\<rparr> = Inr rin
     \<and> length rin = 2 * 2
     \<and> rin ! (1 * 2 + 0) = [[[1, 2], [3, 4]], [[5, 6], [7, 8]]] ! 1 ! 0
     \<and> reshape_utterances_embs
          \<lparr>batch_size = 2, mode = TRAIN, self_logits = None, transition_params = None\<rparr>
          \<lparr>input = [[[1, 2], [3, 4]], [[5, 6], [7, 8::int]]], target = [],
            input_sess_length = [], input_uttr_length = []\<rparr>
          [[10], [20], [30], [40]] = Inr rout
     \<and> length rout = 2 \<and> length (rout ! 1) = 2
     \<and> rout ! 1 ! 0 = [[10], [20], [30], [40]] ! (1 * 2 + 0)"
  using reshape_row_major
    [of "\<lparr>input = [[[1, 2], [3, 4]], [[5, 6], [7, 8::int]]], target = [],
            input_sess_length = [], input_uttr_length = []\<rparr>" 2 2 2
        "\<lparr>batch_size = 2, mode = TRAIN, self_logits = None, transition_params = None\<rparr>"
        "[[10], [20], [30], [40]]" 1 1 0]
  by simp

subsection \<open>The masked loss of the independent-softmax strategy\<close>

lemma filter_product:
  "filter (\<lambda>(i, j). Q i j) (List.product xs ys)
   = concat (map (\<lambda>i. map (Pair i) (filter (Q i) ys)) xs)"
  by (induction xs) (simp_all add: filter_map comp_def)

lemma valid_positions_rows:
  "valid_positions lengths S
   = concat (map (\<lambda>i. map (Pair i) (filter (\<lambda>j. int j < lengths ! i) [0..<S]))
                 [0..<length lengths])"
  unfolding valid_positions_def by (rule filter_product)

lemma list_all2_zipD: "list_all2 P xs ys \<Longrightarrow> (x, y) \<in> set (zip xs ys) \<Longrightarrow> P x y"
  by (auto simp: list_all2_iff)

lemma collect_map_Inr:
  "(\<And>x. x \<in> set xs \<Longrightarrow> f x = Inr (g x)) \<Longrightarrow> collect (map f xs) = Inr (map g xs)"
  by (induction xs) auto

lemma xent_in_range: "0 \<le> l \<Longrightarrow> l < int (length row) \<Longrightarrow> xent row l = Inr (cross_entropy row l)"
  by (simp add: xent_def cross_entropy_def)

lemma xent_row_collect:
  assumes "list_all2 (\<lambda>l row. 0 \<le> l \<and> l < int (length row)) ls rows"
  shows "collect (map (\<lambda>(l, row). xent row l) (zip ls rows))
         = Inr (map (\<lambda>(l, row). cross_entropy row l) (zip ls rows))"
proof (rule collect_map_Inr)
  fix x assume "x \<in> set (zip ls rows)"
  with assms have "0 \<le> fst x \<and> fst x < int (length (snd x))"
    by (cases x) (auto dest: list_all2_zipD)
  then show "(case x of (l, row) \<Rightarrow> xent row l) = Inr (case x of (l, row) \<Rightarrow> cross_entropy row l)"
    by (cases x) (simp add: xent_in_range)
qed

lemma sparse_softmax_in_range:
  assumes "labels_in_range labels logits"
  shows "sparse_softmax_cross_entropy_with_logits labels logits
         = Inr (map (\<lambda>(ls, rows). map (\<lambda>(l, row). cross_entropy row l) (zip ls rows))
                    (zip labels logits))"
proof -
  have shape: "map length labels = map length logits"
    using assms unfolding labels_in_range_def
    by (induction labels logits rule: list_all2_induct) (auto dest: list_all2_lengthD)
  have "collect (map (\<lambda>(ls, rows). collect (map (\<lambda>(l, row). xent row l) (zip ls rows)))
                     (zip labels logits))
        = Inr (map (\<lambda>(ls, rows). map (\<lambda>(l, row). cross_entropy row l) (zip ls rows))
                   (zip labels logits))"
  proof (rule collect_map_Inr)
    fix x assume "x \<in> set (zip labels logits)"
    with assms have "list_all2 (\<lambda>l row. 0 \<le> l \<and> l < int (length row)) (fst x) (snd x)"
      unfolding labels_in_range_def by (cases x) (auto dest: list_all2_zipD)
    then show "(case x of (ls, rows) \<Rightarrow> collect (map (\<lambda>(l, row). xent row l) (zip ls rows)))
               = Inr (case x of (ls, rows) \<Rightarrow> map (\<lambda>(l, row). cross_entropy row l) (zip ls rows))"
      by (cases x) (simp add: xent_row_collect)
  qed
  with shape show ?thesis by (simp add: sparse_softmax_cross_entropy_with_logits_def)
qed

lemma boolean_mask_rows:
  assumes "map length t = map length m"
  shows "boolean_mask_on on t m
         = Inr (concat (map (\<lambda>(r, mr). map fst (filter (\<lambda>(x, b). on b) (zip r mr))) (zip t m)))"
proof -
  have len: "length t = length m" using assms by (rule map_eq_imp_length_eq)
  from len assms
  have "map fst (filter (\<lambda>(x, b). on b) (zip (concat t) (concat m)))
        = concat (map (\<lambda>(r, mr). map fst (filter (\<lambda>(x, b). on b) (zip r mr))) (zip t m))"
    by (induction t m rule: list_induct2) simp_all
  with assms show ?thesis by (simp add: boolean_mask_on_def)
qed

lemma zip_map_upt:
  "length r = S \<Longrightarrow> zip r (map f [0..<S]) = map (\<lambda>j. (r ! j, f j)) [0..<S]"
  by (rule nth_equalityI) simp_all

lemma masked_row:
  assumes "length r = S"
  shows "map fst (filter (\<lambda>(x, b). on b) (zip r (map f [0..<S])))
         = map (\<lambda>j. r ! j) (filter (\<lambda>j. on (f j)) [0..<S])"
  by (simp add: zip_map_upt[OF assms] filter_map comp_def)

lemma boolean_mask_sequence_mask:
  assumes "length t = length lengths" and "\<forall>r\<in>set t. length r = S"
    and "\<And>b. on (c b) = b"
  shows "boolean_mask_on on t (map (map c) (sequence_mask lengths S))
         = Inr (map (\<lambda>(i, j). t ! i ! j) (valid_positions lengths S))"
proof -
  let ?m = "map (map c) (sequence_mask lengths S)"
  have shape: "map length t = map length ?m"
    using assms(1,2) by (intro nth_equalityI) (simp_all add: sequence_mask_def)
  have zip: "zip t ?m = map (\<lambda>i. (t ! i, map (\<lambda>j. c (int j < lengths ! i)) [0..<S])) [0..<length lengths]"
    using assms(1) by (intro nth_equalityI) (simp_all add: sequence_mask_def)
  have row: "map fst (filter (\<lambda>(x, b). on b) (zip (t ! i) (map (\<lambda>j. c (int j < lengths ! i)) [0..<S])))
             = map (\<lambda>j. t ! i ! j) (filter (\<lambda>j. int j < lengths ! i) [0..<S])"
    if "i < length lengths" for i
  proof -
    have "length (t ! i) = S" using assms(1,2) that by simp
    then show ?thesis by (simp add: masked_row assms(3))
  qed
  have "concat (map (\<lambda>(r, mr). map fst (filter (\<lambda>(x, b). on b) (zip r mr))) (zip t ?m))
        = concat (map (\<lambda>i. map (\<lambda>j. t ! i ! j) (filter (\<lambda>j. int j < lengths ! i) [0..<S]))
                      [0..<length lengths])"
    unfolding zip by (rule arg_cong[where f = concat]) (simp add: row)
  also have "\<dots> = map (\<lambda>(i, j). t ! i ! j) (valid_positions lengths S)"
    by (simp add: valid_positions_rows map_concat comp_def)
  finally show ?thesis using boolean_mask_rows[OF shape, of on] by simp
qed

lemma valid_positions_set:
  "set (valid_positions lengths S)
   = {(i, j). i < length lengths \<and> j < S \<and> int j < lengths ! i}"
  by (auto simp: valid_positions_def)

lemma valid_positions_distinct: "distinct (valid_positions lengths S)"
  unfolding valid_positions_def by (simp add: distinct_product)

lemma crossent_nth:
  assumes "labels_in_range labels logits" and "i < length labels" and "j < length (labels ! i)"
  shows "map (\<lambda>(ls, rows). map (\<lambda>(l, row). cross_entropy row l) (zip ls rows))
             (zip labels logits) ! i ! j
         = cross_entropy (logits ! i ! j) (labels ! i ! j)"
proof -
  have len: "length logits = length labels"
    using assms(1) by (simp add: labels_in_range_def list_all2_lengthD)
  have "list_all2 (\<lambda>l row. 0 \<le> l \<and> l < int (length row)) (labels ! i) (logits ! i)"
    using assms(1,2) by (simp add: labels_in_range_def list_all2_nthD)
  then have "length (logits ! i) = length (labels ! i)"
    by (simp add: list_all2_lengthD)
  with len assms(2,3) show ?thesis by simp
qed

lemma hmodel_compute_loss_char:
  assumes "labels_in_range (target it) logits"
    and "length (target it) = length (input_sess_length it)"
    and "\<forall>r\<in>set (target it). length r = S"
    and "target it \<noteq> []"
  shows "hmodel_compute_loss it logits
         = Inr (reduce_mean (map (\<lambda>(i, j). cross_entropy (logits ! i ! j) (target it ! i ! j))
                                 (valid_positions (input_sess_length it) S)))"
proof -
  let ?ce = "map (\<lambda>(ls, rows). map (\<lambda>(l, row). cross_entropy row l) (zip ls rows))
                 (zip (target it) logits)"
  let ?vp = "valid_positions (input_sess_length it) S"
  have len: "length logits = length (target it)"
    using assms(1) by (simp add: labels_in_range_def list_all2_lengthD)
  have dim: "tensor_dim1 (target it) = S"
    using assms(3,4) by (cases "target it") (auto simp: tensor_dim1_def)
  have ce_len: "length ?ce = length (input_sess_length it)"
    using len assms(2) by simp
  have ce_rows: "\<forall>r\<in>set ?ce. length r = S"
  proof
    fix r assume "r \<in> set ?ce"
    then obtain ls rows where in_zip: "(ls, rows) \<in> set (zip (target it) logits)"
      and r: "r = map (\<lambda>(l, row). cross_entropy row l) (zip ls rows)" by auto
    from assms(1) in_zip
    have "list_all2 (\<lambda>l row. 0 \<le> l \<and> l < int (length row)) ls rows"
      unfolding labels_in_range_def by (rule list_all2_zipD)
    then have "length rows = length ls" by (simp add: list_all2_lengthD)
    moreover from in_zip assms(3) have "length ls = S" by (auto dest: set_zip_leftD)
    ultimately show "length r = S" using r by simp
  qed
  have mask: "boolean_mask_on (\<lambda>m. m \<noteq> (0::real)) ?ce
                (map (map of_bool) (sequence_mask (input_sess_length it) S))
              = Inr (map (\<lambda>(i, j). ?ce ! i ! j) ?vp)"
    using ce_len ce_rows by (rule boolean_mask_sequence_mask) simp
  have "map (\<lambda>(i, j). ?ce ! i ! j) ?vp
        = map (\<lambda>(i, j). cross_entropy (logits ! i ! j) (target it ! i ! j)) ?vp"
  proof (rule map_cong[OF refl])
    fix p assume "p \<in> set ?vp"
    then obtain i j where p: "p = (i, j)" and i: "i < length (input_sess_length it)" and j: "j < S"
      by (auto simp: valid_positions_set)
    from i assms(2,3) have "length (target it ! i) = S" by simp
    with assms(1,2) i j have "?ce ! i ! j = cross_entropy (logits ! i ! j) (target it ! i ! j)"
      by (intro crossent_nth) simp_all
    with p show "(case p of (i, j) \<Rightarrow> ?ce ! i ! j)
                 = (case p of (i, j) \<Rightarrow> cross_entropy (logits ! i ! j) (target it ! i ! j))"
      by simp
  qed
  with mask show ?thesis
    by (simp add: hmodel_compute_loss_def sparse_softmax_in_range[OF assms(1)] dim)
qed

text \<open>
  C1. For the independent-softmax strategy the loss is the arithmetic mean of the
  per-position cross-entropy over exactly the valid positions (position \<open>j\<close> of session
  \<open>i\<close> with \<open>j < session_lengths[i]\<close>): the sum over them divided by their number, never
  by the size of the padded grid. For lengths 2 and 3 with 3 positions the divisor is 5.
\<close>

theorem compute_loss_mean_over_valid:
  assumes "labels_in_range (target it) logits"
    and "length (target it) = length (input_sess_length it)"
    and "\<forall>r\<in>set (target it). length r = S"
    and "valid_positions (input_sess_length it) S \<noteq> []"
  shows "hmodel_compute_loss it logits
         = Inr (Val (sum_list (map (\<lambda>(i, j). cross_entropy (logits ! i ! j) (target it ! i ! j))
                                   (valid_positions (input_sess_length it) S))
                     / real (length (valid_positions (input_sess_length it) S))))
       \<and> distinct (valid_positions (input_sess_length it) S)
       \<and> set (valid_positions (input_sess_length it) S)
         = {(i, j). i < length (target it) \<and> j < S \<and> int j < input_sess_length it ! i}"
proof -
  have "target it \<noteq> []"
    using assms(2,4) by (auto simp: valid_positions_def)
  with assms(1,2,3) have "hmodel_compute_loss it logits
         = Inr (reduce_mean (map (\<lambda>(i, j). cross_entropy (logits ! i ! j) (target it ! i ! j))
                                 (valid_positions (input_sess_length it) S)))"
    by (rule hmodel_compute_loss_char)
  with assms(4) show ?thesis
    by (simp add: reduce_mean_def valid_positions_distinct valid_positions_set assms(2))
qed

theorem compute_loss_mean_over_valid_witness:
  "hmodel_compute_loss
     \<lparr>input = [], target = [[0, 1, 2], [3, 0, 1]], input_sess_length = [2, 3],
       input_uttr_length = []\<rparr>
     [[[0, 0, 0, 0], [1, 0, 0, 0], [2, 0, 0, 0]], [[0, 1, 0, 0], [0, 2, 0, 0], [0, 0, 3, 0]]]
   = Inr (Val ((cross_entropy [0, 0, 0, 0] 0 + cross_entropy [1, 0, 0, 0] 1
                + cross_entropy [0, 1, 0, 0] 3 + cross_entropy [0, 2, 0, 0] 0
                + cross_entropy [0, 0, 3, 0] 1) / 5))"
  using compute_loss_mean_over_valid
    [of "\<lparr>input = [], target = [[0, 1, 2], [3, 0, 1]], input_sess_length = [2, 3],
           input_uttr_length = []\<rparr>"
        "[[[0, 0, 0, 0], [1, 0, 0, 0], [2, 0, 0, 0]], [[0, 1, 0, 0], [0, 2, 0, 0], [0, 0, 3, 0]]]"
        3, THEN conjunct1]
  by (simp add: labels_in_range_def valid_positions_def upt_rec[of _ "numeral _"]
                upt_rec[of 0 "Suc _"] add.assoc)

subsection \<open>The masked accuracy\<close>

lemma sum_list_of_bool:
  "sum_list (map (\<lambda>(i, j). of_bool (P i j)) xs) = real (length (filter (\<lambda>(i, j). P i j) xs))"
  by (induction xs) auto

lemma hmodel_compute_accuracy_char:
  assumes "map length labels = map length (target it)"
    and "length (target it) = length (input_sess_length it)"
    and "\<forall>r\<in>set (target it). length r = S"
    and "target it \<noteq> []"
  shows "hmodel_compute_accuracy it labels
         = Inr (reduce_mean (map (\<lambda>(i, j). of_bool (labels ! i ! j = target it ! i ! j))
                                 (valid_positions (input_sess_length it) S)))"
proof -
  let ?cp = "map (map of_bool) (map2 (map2 (\<lambda>l t. l = t)) labels (target it)) :: real tensor2"
  let ?vp = "valid_positions (input_sess_length it) S"
  have len: "length labels = length (target it)"
    using assms(1) by (rule map_eq_imp_length_eq)
  have rows: "length (labels ! i) = length (target it ! i)" if "i < length (target it)" for i
    using arg_cong[OF assms(1), of "\<lambda>xs. xs ! i"] that len by simp
  have dim: "tensor_dim1 (target it) = S"
    using assms(3,4) by (cases "target it") (auto simp: tensor_dim1_def)
  have cp_len: "length ?cp = length (input_sess_length it)"
    using len assms(2) by simp
  have cp_rows: "\<forall>r\<in>set ?cp. length r = S"
    unfolding all_set_conv_all_nth
  proof (intro allI impI)
    fix i assume "i < length ?cp"
    then have i: "i < length (target it)" using len by simp
    with assms(3) have "length (target it ! i) = S" by simp
    with i len rows[of i] show "length (?cp ! i) = S" by simp
  qed
  have mask: "boolean_mask_on (\<lambda>b. b) ?cp
                (map (map (\<lambda>b. b)) (sequence_mask (input_sess_length it) S))
              = Inr (map (\<lambda>(i, j). ?cp ! i ! j) ?vp)"
    using cp_len cp_rows by (rule boolean_mask_sequence_mask) simp
  have eq: "map (\<lambda>(i, j). ?cp ! i ! j) ?vp
        = map (\<lambda>(i, j). of_bool (labels ! i ! j = target it ! i ! j)) ?vp"
  proof (rule map_cong[OF refl])
    fix p assume "p \<in> set ?vp"
    then obtain i j where p: "p = (i, j)" and i: "i < length (input_sess_length it)" and j: "j < S"
      by (auto simp: valid_positions_set)
    from i assms(2,3) have "length (target it ! i) = S" by simp
    with i j len rows[of i] assms(2)
    have "?cp ! i ! j = of_bool (labels ! i ! j = target it ! i ! j)" by simp
    with p show "(case p of (i, j) \<Rightarrow> ?cp ! i ! j)
                 = (case p of (i, j) \<Rightarrow> of_bool (labels ! i ! j = target it ! i ! j))"
      by simp
  qed
  have "hmodel_compute_accuracy it labels = Inr (reduce_mean (map (\<lambda>(i, j). ?cp ! i ! j) ?vp))"
    using mask assms(1) by (simp add: hmodel_compute_accuracy_def dim)
  then show ?thesis by (simp only: eq)
qed

text \<open>
  C10. \<open>compute_accuracy\<close> is the fraction of the valid positions (position \<open>j\<close> of
  session \<open>i\<close> with \<open>j < session_lengths[i]\<close>) at which the predicted label equals the
  target, and it does not change when predicted or target values change at padding
  positions only.
\<close>

theorem compute_accuracy_over_valid:
  assumes "map length labels = map length (target it)"
    and "length (target it) = length (input_sess_length it)"
    and "\<forall>r\<in>set (target it). length r = S"
    and "valid_positions (input_sess_length it) S \<noteq> []"
  shows "hmodel_compute_accuracy it labels
         = Inr (Val (real (length (filter (\<lambda>(i, j). labels ! i ! j = target it ! i ! j)
                                          (valid_positions (input_sess_length it) S)))
                     / real (length (valid_positions (input_sess_length it) S))))
       \<and> (\<forall>it' labels'.
            input_sess_length it' = input_sess_length it
            \<and> map length (target it') = map length (target it)
            \<and> map length labels' = map length (target it)
            \<and> agree_on_valid (input_sess_length it) S labels' labels
            \<and> agree_on_valid (input_sess_length it) S (target it') (target it)
            \<longrightarrow> hmodel_compute_accuracy (it' :: 'b iterator) labels'
                = hmodel_compute_accuracy it labels)"
proof -
  let ?vp = "valid_positions (input_sess_length it) S"
  have ne: "target it \<noteq> []"
    using assms(2,4) by (auto simp: valid_positions_def)
  have char: "hmodel_compute_accuracy it labels
         = Inr (reduce_mean (map (\<lambda>(i, j). of_bool (labels ! i ! j = target it ! i ! j)) ?vp))"
    using assms(1,2,3) ne by (rule hmodel_compute_accuracy_char)
  have first: "hmodel_compute_accuracy it labels
         = Inr (Val (real (length (filter (\<lambda>(i, j). labels ! i ! j = target it ! i ! j) ?vp))
                     / real (length ?vp)))"
    using char assms(4) by (simp add: reduce_mean_def sum_list_of_bool)
  have second: "hmodel_compute_accuracy it' labels' = hmodel_compute_accuracy it labels"
    if h: "input_sess_length it' = input_sess_length it"
          "map length (target it') = map length (target it)"
          "map length labels' = map length (target it)"
          "agree_on_valid (input_sess_length it) S labels' labels"
          "agree_on_valid (input_sess_length it) S (target it') (target it)"
    for it' :: "'b iterator" and labels'
  proof -
    have len': "length (target it') = length (target it)"
      using h(2) by (rule map_eq_imp_length_eq)
    have rows': "\<forall>r\<in>set (target it'). length r = S"
    proof -
      have "set (map length (target it')) = set (map length (target it))" using h(2) by simp
      then show ?thesis using assms(3) by auto
    qed
    have ne': "target it' \<noteq> []" using len' ne by auto
    have "hmodel_compute_accuracy it' labels'
         = Inr (reduce_mean (map (\<lambda>(i, j). of_bool (labels' ! i ! j = target it' ! i ! j)) ?vp))"
      using hmodel_compute_accuracy_char[of labels' it' S] h(1,2,3) len' assms(2) rows' ne'
      by simp
    moreover have "map (\<lambda>(i, j). of_bool (labels' ! i ! j = target it' ! i ! j)) ?vp
        = map (\<lambda>(i, j). of_bool (labels ! i ! j = target it ! i ! j) :: real) ?vp"
    proof (rule map_cong[OF refl])
      fix p assume p: "p \<in> set ?vp"
      obtain i j where ij: "p = (i, j)" by (cases p)
      from h(4) p ij have "labels' ! i ! j = labels ! i ! j"
        by (auto simp: agree_on_valid_def list_all_iff)
      moreover from h(5) p ij have "target it' ! i ! j = target it ! i ! j"
        by (auto simp: agree_on_valid_def list_all_iff)
      ultimately show "(case p of (i, j) \<Rightarrow> of_bool (labels' ! i ! j = target it' ! i ! j))
                       = (case p of (i, j) \<Rightarrow> (of_bool (labels ! i ! j = target it ! i ! j) :: real))"
        using ij by simp
    qed
    ultimately show ?thesis using char by simp
  qed
  from first second show ?thesis by blast
qed

theorem compute_accuracy_over_valid_witness:
  "hmodel_compute_accuracy
     \<lparr>input = ([] :: int tensor3), target = [[0, 1, 2], [3, 0, 1]],
       input_sess_length = [2, 3], input_uttr_length = []\<rparr>
     [[0, 2, 2], [3, 0, 0]] = Inr (Val (3 / 5))
   \<and> hmodel_compute_accuracy
       \<lparr>input = ([] :: int tensor3), target = [[0, 1, 7], [3, 0, 1]],
         input_sess_length = [2, 3], input_uttr_length = []\<rparr>
       [[0, 2, 9], [3, 0, 0]]
     = hmodel_compute_accuracy
         \<lparr>input = ([] :: int tensor3), target = [[0, 1, 2], [3, 0, 1]],
           input_sess_length = [2, 3], input_uttr_length = []\<rparr>
         [[0, 2, 2], [3, 0, 0]]"
proof -
  let ?it = "\<lparr>input = ([] :: int tensor3), target = [[0, 1, 2], [3, 0, 1]],
               input_sess_length = [2, 3], input_uttr_length = []\<rparr>"
  let ?it' = "\<lparr>input = ([] :: int tensor3), target = [[0, 1, 7], [3, 0, 1]],
                input_sess_length = [2, 3], input_uttr_length = []\<rparr>"
  let ?l = "[[0, 2, 2], [3, 0, 0]] :: int tensor2"
  let ?l' = "[[0, 2, 9], [3, 0, 0]] :: int tensor2"
  have vp: "valid_positions [2, 3] 3 = [(0, 0), (0, 1), (1, 0), (1, 1), (1, 2)]"
    by (simp add: valid_positions_def upt_rec[of _ "numeral _"] upt_rec[of 0 "Suc _"])
  have p1: "map length ?l = map length (target ?it)" by simp
  have p2: "length (target ?it) = length (input_sess_length ?it)" by simp
  have p3: "\<forall>r\<in>set (target ?it). length r = 3" by simp
  have p4: "valid_positions (input_sess_length ?it) 3 \<noteq> []" by (simp add: vp)
  note t = compute_accuracy_over_valid[OF p1 p2 p3 p4]
  have a: "hmodel_compute_accuracy ?it ?l = Inr (Val (3 / 5))"
    using t[THEN conjunct1] by (simp add: vp)
  have q: "input_sess_length ?it' = input_sess_length ?it
           \<and> map length (target ?it') = map length (target ?it)
           \<and> map length ?l' = map length (target ?it)
           \<and> agree_on_valid (input_sess_length ?it) 3 ?l' ?l
           \<and> agree_on_valid (input_sess_length ?it) 3 (target ?it') (target ?it)"
    by (simp add: agree_on_valid_def vp)
  have b: "hmodel_compute_accuracy ?it' ?l' = hmodel_compute_accuracy ?it ?l"
    using t[THEN conjunct2, THEN spec, THEN spec, THEN mp, OF q] .
  from a b show ?thesis by (rule conjI)
qed

subsection \<open>Invariance of the loss under padding values\<close>

lemma wf_batch_nth:
  assumes "wf_batch K S it logits" and "i < length (target it)"
  shows "length (target it ! i) = S" and "length (logits ! i) = S"
    and "j < S \<Longrightarrow> 0 \<le> target it ! i ! j \<and> target it ! i ! j < int K"
    and "j < S \<Longrightarrow> length (logits ! i ! j) = K"
    and "list_all (\<lambda>l. 0 \<le> l \<and> l < int K) (target it ! i)"
  using assms by (auto simp: wf_batch_def list_all_length)

lemma wf_batch_labels_in_range:
  assumes "wf_batch K S it logits"
  shows "labels_in_range (target it) logits"
  unfolding labels_in_range_def list_all2_conv_all_nth
proof (intro conjI allI impI)
  show "length (target it) = length logits" using assms by (simp add: wf_batch_def)
next
  fix i assume i: "i < length (target it)"
  show "length (target it ! i) = length (logits ! i)"
    using wf_batch_nth(1,2)[OF assms i] by simp
next
  fix i j assume i: "i < length (target it)" and "j < length (target it ! i)"
  then have j: "j < S" using wf_batch_nth(1)[OF assms i] by simp
  show "0 \<le> target it ! i ! j" using wf_batch_nth(3)[OF assms i j] by simp
  show "target it ! i ! j < int (length (logits ! i ! j))"
    using wf_batch_nth(3,4)[OF assms i j] by simp
qed

lemma wf_batch_rows: "wf_batch K S it logits \<Longrightarrow> \<forall>r\<in>set (target it). length r = S"
  by (auto simp: wf_batch_def list_all_iff)

lemma agree_on_validD:
  "agree_on_valid lengths S a b \<Longrightarrow> i < length lengths \<Longrightarrow> j < S \<Longrightarrow> int j < lengths ! i
    \<Longrightarrow> a ! i ! j = b ! i ! j"
  by (auto simp: agree_on_valid_def list_all_iff valid_positions_set)

lemma hmodel_compute_loss_char_all:
  assumes "wf_batch K S it logits"
  shows "hmodel_compute_loss it logits
         = Inr (reduce_mean (map (\<lambda>(i, j). cross_entropy (logits ! i ! j) (target it ! i ! j))
                                 (valid_positions (input_sess_length it) S)))"
proof (cases "target it = []")
  case True
  with assms have "logits = []" "input_sess_length it = []" by (simp_all add: wf_batch_def)
  with True show ?thesis
    by (simp add: hmodel_compute_loss_def sparse_softmax_cross_entropy_with_logits_def
                  sequence_mask_def boolean_mask_on_def valid_positions_def)
next
  case False
  have "length (target it) = length (input_sess_length it)"
    using assms by (simp add: wf_batch_def)
  with wf_batch_labels_in_range[OF assms] show ?thesis
    using wf_batch_rows[OF assms] False by (rule hmodel_compute_loss_char)
qed

lemma hmodel_loss_invariant:
  assumes "wf_batch K S it logits" and "wf_batch K S it' logits'"
    and "input_sess_length it' = input_sess_length it"
    and "agree_on_valid (input_sess_length it) S (target it') (target it)"
    and "agree_on_valid (input_sess_length it) S logits' logits"
  shows "hmodel_compute_loss it' logits' = hmodel_compute_loss it logits"
proof -
  let ?vp = "valid_positions (input_sess_length it) S"
  have "map (\<lambda>(i, j). cross_entropy (logits' ! i ! j) (target it' ! i ! j)) ?vp
        = map (\<lambda>(i, j). cross_entropy (logits ! i ! j) (target it ! i ! j)) ?vp"
  proof (rule map_cong[OF refl])
    fix p assume p: "p \<in> set ?vp"
    obtain i j where ij: "p = (i, j)" by (cases p)
    from assms(4) p ij have "target it' ! i ! j = target it ! i ! j"
      by (auto simp: agree_on_valid_def list_all_iff)
    moreover from assms(5) p ij have "logits' ! i ! j = logits ! i ! j"
      by (auto simp: agree_on_valid_def list_all_iff)
    ultimately show "(case p of (i, j) \<Rightarrow> cross_entropy (logits' ! i ! j) (target it' ! i ! j))
                     = (case p of (i, j) \<Rightarrow> cross_entropy (logits ! i ! j) (target it ! i ! j))"
      using ij by simp
  qed
  then show ?thesis
    using hmodel_compute_loss_char_all[OF assms(1)] hmodel_compute_loss_char_all[OF assms(2)]
    by (simp only: assms(3))
qed

lemma crf_unary_score_agree:
  assumes "length tags' = length tags"
    and "\<And>j. j < length tags \<Longrightarrow> int j < n \<Longrightarrow> x' ! j = x ! j \<and> tags' ! j = tags ! j"
  shows "crf_unary_score tags' n x' = crf_unary_score tags n x"
  unfolding crf_unary_score_def assms(1)
  by (rule arg_cong[where f = sum_list], rule map_cong[OF refl]) (use assms(2) in auto)

lemma crf_binary_score_agree:
  assumes "length tags' = length tags"
    and "\<And>j. j < length tags \<Longrightarrow> int j < n \<Longrightarrow> tags' ! j = tags ! j"
  shows "crf_binary_score tags' n T = crf_binary_score tags n T"
  unfolding crf_binary_score_def assms(1)
proof (rule arg_cong[where f = sum_list], rule map_cong[OF refl])
  fix j assume "j \<in> set [0..<length tags - 1]"
  then have j: "Suc j < length tags" by simp
  show "T ! nat (tags' ! j) ! nat (tags' ! Suc j) * of_bool (int (Suc j) < n)
        = T ! nat (tags ! j) ! nat (tags ! Suc j) * of_bool (int (Suc j) < n)"
  proof (cases "int (Suc j) < n")
    case True
    then have "tags' ! j = tags ! j" "tags' ! Suc j = tags ! Suc j"
      using assms(2)[of j] assms(2)[of "Suc j"] j by simp_all
    then show ?thesis by simp
  next
    case False
    then show ?thesis by simp
  qed
qed

lemma crf_log_norm_agree:
  assumes "length x' = length x" and "x \<noteq> []"
    and "\<And>j. j < length x \<Longrightarrow> int j < n \<Longrightarrow> x' ! j = x ! j"
  shows "crf_log_norm x' n T = crf_log_norm x n T"
proof (cases "n \<le> 0")
  case True
  then show ?thesis by (simp add: crf_log_norm_def)
next
  case False
  have ne': "x' \<noteq> []" using assms(1,2) by auto
  have "x' ! 0 = x ! 0" using assms(2) assms(3)[of 0] False by simp
  then have hd: "hd x' = hd x" using assms(2) ne' by (simp add: hd_conv_nth)
  have tl: "take (nat n - 1) (tl x') = take (nat n - 1) (tl x)"
  proof (rule nth_equalityI)
    show "length (take (nat n - 1) (tl x')) = length (take (nat n - 1) (tl x))"
      using assms(1) by simp
  next
    fix k assume "k < length (take (nat n - 1) (tl x'))"
    then have k: "k < nat n - 1" "Suc k < length x" using assms(1) by auto
    then have "int (Suc k) < n" by linarith
    with k have "x' ! Suc k = x ! Suc k" using assms(3) by simp
    with k assms(1) show "take (nat n - 1) (tl x') ! k = take (nat n - 1) (tl x) ! k"
      by (simp add: nth_tl)
  qed
  show ?thesis by (simp only: crf_log_norm_def hd tl)
qed

lemma crf_session_log_likelihood_agree:
  assumes "length x' = length x" and "length tags = length x" and "length tags' = length x"
    and "list_all (\<lambda>t. 0 \<le> t \<and> t < int (length T)) tags"
    and "list_all (\<lambda>t. 0 \<le> t \<and> t < int (length T)) tags'"
    and "\<And>j. j < length x \<Longrightarrow> int j < n \<Longrightarrow> x' ! j = x ! j \<and> tags' ! j = tags ! j"
  shows "crf_session_log_likelihood T x' tags' n = crf_session_log_likelihood T x tags n"
proof (cases "x = []")
  case True
  with assms(1) show ?thesis by (simp add: crf_session_log_likelihood_def)
next
  case False
  then have ne': "x' \<noteq> []" using assms(1) by auto
  have u: "crf_unary_score tags' n x' = crf_unary_score tags n x"
    using assms(2,3,6) by (intro crf_unary_score_agree) simp_all
  have b: "crf_binary_score tags' n T = crf_binary_score tags n T"
    using assms(2,3,6) by (intro crf_binary_score_agree) simp_all
  have l: "crf_log_norm x' n T = crf_log_norm x n T"
    using assms(1) False assms(6) by (intro crf_log_norm_agree) simp_all
  show ?thesis
    using False ne' assms(4,5) by (simp add: crf_session_log_likelihood_def u b l)
qed

lemma crf_log_likelihood_invariant:
  assumes "wf_batch (length T) S it logits" and "wf_batch (length T) S it' logits'"
    and "input_sess_length it' = input_sess_length it"
    and "agree_on_valid (input_sess_length it) S (target it') (target it)"
    and "agree_on_valid (input_sess_length it) S logits' logits"
  shows "crf_log_likelihood logits' (target it') (input_sess_length it') T
         = crf_log_likelihood logits (target it) (input_sess_length it) T"
proof -
  let ?lens = "input_sess_length it"
  let ?f = "\<lambda>(x, tags, n). crf_session_log_likelihood T x tags n"
  have B: "length (target it) = length ?lens" "length logits = length ?lens"
    using assms(1) by (simp_all add: wf_batch_def)
  have B': "length (target it') = length ?lens" "length logits' = length ?lens"
    using assms(2,3) by (simp_all add: wf_batch_def)
  have shape: "map length (target it) = map length logits"
    using wf_batch_labels_in_range[OF assms(1)]
    by (auto simp: labels_in_range_def list_all2_conv_all_nth intro: nth_equalityI)
  have shape': "map length (target it') = map length logits'"
    using wf_batch_labels_in_range[OF assms(2)]
    by (auto simp: labels_in_range_def list_all2_conv_all_nth intro: nth_equalityI)
  have "map ?f (zip logits' (zip (target it') ?lens)) = map ?f (zip logits (zip (target it) ?lens))"
  proof (rule nth_equalityI)
    show "length (map ?f (zip logits' (zip (target it') ?lens)))
          = length (map ?f (zip logits (zip (target it) ?lens)))"
      using B B' by simp
  next
    fix i assume "i < length (map ?f (zip logits' (zip (target it') ?lens)))"
    then have i: "i < length ?lens" using B' by simp
    then have it: "i < length (target it)" and it': "i < length (target it')"
      using B B' by simp_all
    have "crf_session_log_likelihood T (logits' ! i) (target it' ! i) (?lens ! i)
          = crf_session_log_likelihood T (logits ! i) (target it ! i) (?lens ! i)"
    proof (rule crf_session_log_likelihood_agree)
      show "length (logits' ! i) = length (logits ! i)"
        using wf_batch_nth(2)[OF assms(1) it] wf_batch_nth(2)[OF assms(2) it'] by simp
      show "length (target it ! i) = length (logits ! i)"
        using wf_batch_nth(1,2)[OF assms(1) it] by simp
      show "length (target it' ! i) = length (logits ! i)"
        using wf_batch_nth(2)[OF assms(1) it] wf_batch_nth(1)[OF assms(2) it'] by simp
      show "list_all (\<lambda>t. 0 \<le> t \<and> t < int (length T)) (target it ! i)"
        using wf_batch_nth(5)[OF assms(1) it] .
      show "list_all (\<lambda>t. 0 \<le> t \<and> t < int (length T)) (target it' ! i)"
        using wf_batch_nth(5)[OF assms(2) it'] .
    next
      fix j assume "j < length (logits ! i)" and n: "int j < ?lens ! i"
      then have j: "j < S" using wf_batch_nth(2)[OF assms(1) it] by simp
      show "logits' ! i ! j = logits ! i ! j \<and> target it' ! i ! j = target it ! i ! j"
        using agree_on_validD[OF assms(5) i j n] agree_on_validD[OF assms(4) i j n] by simp
    qed
    with i B B' show "map ?f (zip logits' (zip (target it') ?lens)) ! i
                      = map ?f (zip logits (zip (target it) ?lens)) ! i"
      by simp
  qed
  then show ?thesis
    using shape shape' B B' by (simp add: crf_log_likelihood_def assms(3))
qed

text \<open>
  C2, as the code has it. For both loss strategies the loss is invariant under changes
  of the target labels and of the logits at padding positions, as long as the labels at
  padding positions stay class indices: two well-shaped batches with the same session
  lengths whose targets and logits agree on the valid positions have equal loss (for the
  chain-structured class, the same updated model too). The input reaches
  \<open>compute_loss\<close> only through the logits.
\<close>

theorem loss_invariant_to_padding:
  assumes "wf_batch (length T) S it logits" and "wf_batch (length T) S it' logits'"
    and "input_sess_length it' = input_sess_length it"
    and "agree_on_valid (input_sess_length it) S (target it') (target it)"
    and "agree_on_valid (input_sess_length it) S logits' logits"
  shows "compute_loss cls T self it' logits' = compute_loss cls T self it logits"
proof (cases cls)
  case H_RNN_RNN_CRF
  then show ?thesis
    using crf_log_likelihood_invariant[OF assms]
    by (simp add: crf_compute_loss_def)
qed (simp_all add: hmodel_loss_invariant[OF assms])

theorem loss_invariant_to_padding_witness:
  "compute_loss H_RNN_RNN_CRF [[0, 1], [1, 0]]
     \<lparr>batch_size = 2, mode = TRAIN, self_logits = None, transition_params = None\<rparr>
     \<lparr>input = ([] :: int tensor3), target = [[0, 0], [1, 0]], input_sess_length = [1, 2],
       input_uttr_length = []\<rparr>
     [[[0, 1], [9, 9]], [[1, 0], [0, 0]]]
   = compute_loss H_RNN_RNN_CRF [[0, 1], [1, 0]]
       \<lparr>batch_size = 2, mode = TRAIN, self_logits = None, transition_params = None\<rparr>
       \<lparr>input = ([] :: int tensor3), target = [[0, 1], [1, 0]], input_sess_length = [1, 2],
         input_uttr_length = []\<rparr>
       [[[0, 1], [2, 3]], [[1, 0], [0, 0]]]
   \<and> compute_loss H_RNN_RNN [[0, 1], [1, 0]]
       \<lparr>batch_size = 2, mode = TRAIN, self_logits = None, transition_params = None\<rparr>
       \<lparr>input = ([] :: int tensor3), target = [[0, 0], [1, 0]], input_sess_length = [1, 2],
         input_uttr_length = []\<rparr>
       [[[0, 1], [9, 9]], [[1, 0], [0, 0]]]
     = compute_loss H_RNN_RNN [[0, 1], [1, 0]]
         \<lparr>batch_size = 2, mode = TRAIN, self_logits = None, transition_params = None\<rparr>
         \<lparr>input = ([] :: int tensor3), target = [[0, 1], [1, 0]], input_sess_length = [1, 2],
           input_uttr_length = []\<rparr>
         [[[0, 1], [2, 3]], [[1, 0], [0, 0]]]"
proof -
  let ?T = "[[0, 1], [1, 0]] :: real tensor2"
  let ?it = "\<lparr>input = ([] :: int tensor3), target = [[0, 1], [1, 0]],
               input_sess_length = [1, 2], input_uttr_length = []\<rparr>"
  let ?it' = "\<lparr>input = ([] :: int tensor3), target = [[0, 0], [1, 0]],
                input_sess_length = [1, 2], input_uttr_length = []\<rparr>"
  let ?lg = "[[[0, 1], [2, 3]], [[1, 0], [0, 0]]] :: real tensor3"
  let ?lg' = "[[[0, 1], [9, 9]], [[1, 0], [0, 0]]] :: real tensor3"
  have vp: "valid_positions [1, 2] 2 = [(0, 0), (1, 0), (1, 1)]"
    by (simp add: valid_positions_def upt_rec[of _ "numeral _"] upt_rec[of 0 "Suc _"])
  have p1: "wf_batch (length ?T) 2 ?it ?lg" by (simp add: wf_batch_def)
  have p2: "wf_batch (length ?T) 2 ?it' ?lg'" by (simp add: wf_batch_def)
  have p3: "input_sess_length ?it' = input_sess_length ?it" by simp
  have p4: "agree_on_valid (input_sess_length ?it) 2 (target ?it') (target ?it)"
    by (simp add: agree_on_valid_def vp)
  have p5: "agree_on_valid (input_sess_length ?it) 2 ?lg' ?lg"
    by (simp add: agree_on_valid_def vp)
  note t = loss_invariant_to_padding[OF p1 p2 p3 p4 p5]
  show ?thesis by (rule conjI) (rule t)+
qed

text \<open>
  C2 as the specification states it, for any change at padding positions, fails when a
  padding label leaves the class range: with one session of length 1, two positions and
  two classes, the targets \<open>[[0, 0]]\<close> and \<open>[[0, 5]]\<close> agree on the valid position, the
  first gives the loss \<open>ln 2\<close> and the second raises, for both strategies.
\<close>

theorem padding_label_out_of_range_counterexample:
  "input_sess_length \<lparr>input = ([] :: int tensor3), target = [[0, 5]], input_sess_length = [1],
                       input_uttr_length = []\<rparr>
   = input_sess_length \<lparr>input = ([] :: int tensor3), target = [[0, 0]],
                         input_sess_length = [1], input_uttr_length = []\<rparr>
   \<and> agree_on_valid [1] 2 [[0, 5]] [[0, 0 :: int]]
   \<and> compute_loss H_RNN_RNN [[0, 0], [0, 0]]
       \<lparr>batch_size = 1, mode = TRAIN, self_logits = None, transition_params = None\<rparr>
       \<lparr>input = ([] :: int tensor3), target = [[0, 0]], input_sess_length = [1],
         input_uttr_length = []\<rparr> [[[0, 0], [0, 0]]]
     = Inr (Val (ln 2),
            \<lparr>batch_size = 1, mode = TRAIN, self_logits = None, transition_params = None\<rparr>)
   \<and> compute_loss H_RNN_RNN [[0, 0], [0, 0]]
       \<lparr>batch_size = 1, mode = TRAIN, self_logits = None, transition_params = None\<rparr>
       \<lparr>input = ([] :: int tensor3), target = [[0, 5]], input_sess_length = [1],
         input_uttr_length = []\<rparr> [[[0, 0], [0, 0]]]
     = Inl InvalidArgumentError
   \<and> compute_loss H_RNN_RNN_CRF [[0, 0], [0, 0]]
       \<lparr>batch_size = 1, mode = TRAIN, self_logits = None, transition_params = None\<rparr>
       \<lparr>input = ([] :: int tensor3), target = [[0, 0]], input_sess_length = [1],
         input_uttr_length = []\<rparr> [[[0, 0], [0, 0]]]
     = Inr (Val (ln 2),
            \<lparr>batch_size = 1, mode = TRAIN, self_logits = None,
              transition_params = Some [[0, 0], [0, 0]]\<rparr>)
   \<and> compute_loss H_RNN_RNN_CRF [[0, 0], [0, 0]]
       \<lparr>batch_size = 1, mode = TRAIN, self_logits = None, transition_params = None\<rparr>
       \<lparr>input = ([] :: int tensor3), target = [[0, 5]], input_sess_length = [1],
         input_uttr_length = []\<rparr> [[[0, 0], [0, 0]]]
     = Inl InvalidArgumentError"
proof -
  have vp: "valid_positions [1] 2 = [(0, 0)]"
    by (simp add: valid_positions_def upt_rec[of _ "numeral _"] upt_rec[of 0 "Suc _"])
  show ?thesis
    by (simp add: vp agree_on_valid_def hmodel_compute_loss_def
                  sparse_softmax_cross_entropy_with_logits_def xent_def sequence_mask_def
                  boolean_mask_on_def reduce_mean_def tensor_dim1_def
                  crf_compute_loss_def crf_log_likelihood_def crf_session_log_likelihood_def
                  crf_unary_score_def crf_binary_score_def crf_log_norm_def
                  reduce_logsumexp_def upt_rec[of _ "numeral _"] upt_rec[of 0 "Suc _"])
qed

subsection \<open>A session of length zero\<close>

lemma length_drop_nth: "i < length xs \<Longrightarrow> length (drop_nth i xs) = length xs - 1"
  by (simp add: drop_nth_def)

lemma zip_drop_nth:
  "length xs = length ys \<Longrightarrow> zip (drop_nth i xs) (drop_nth i ys) = drop_nth i (zip xs ys)"
  by (simp add: drop_nth_def take_zip drop_zip)

lemma list_all_drop_nth: "list_all P xs \<Longrightarrow> list_all P (drop_nth i xs)"
  by (auto simp: drop_nth_def list_all_iff dest: in_set_takeD in_set_dropD)

lemma concat_map_drop_nth:
  assumes "i < length zs" and "h (zs ! i) = []"
  shows "concat (map h (drop_nth i zs)) = concat (map h zs)"
proof -
  have "concat (map h zs) = concat (map h (take i zs @ zs ! i # drop (Suc i) zs))"
    using assms(1) by (simp add: id_take_nth_drop[symmetric])
  then show ?thesis using assms(2) by (simp add: drop_nth_def)
qed

lemma sum_list_map_drop_nth:
  fixes g :: "'a \<Rightarrow> real"
  assumes "i < length zs" and "g (zs ! i) = 0"
  shows "sum_list (map g (drop_nth i zs)) = sum_list (map g zs)"
proof -
  have "sum_list (map g zs) = sum_list (map g (take i zs @ zs ! i # drop (Suc i) zs))"
    using assms(1) by (simp add: id_take_nth_drop[symmetric])
  then show ?thesis using assms(2) by (simp add: drop_nth_def)
qed

lemma wf_batch_remove_session:
  assumes "wf_batch K S it logits"
  shows "wf_batch K S (remove_session i it) (drop_nth i logits)"
proof -
  have "length (drop_nth i (input_sess_length it)) = length (drop_nth i (target it))"
    and "length (drop_nth i logits) = length (drop_nth i (target it))"
    using assms by (simp_all add: wf_batch_def drop_nth_def)
  then show ?thesis
    using assms by (simp add: wf_batch_def remove_session_def list_all_drop_nth)
qed

lemma map_upt_zip3:
  assumes "length ys = length xs" and "length zs = length xs"
  shows "map (\<lambda>a. F (xs ! a) (ys ! a) (zs ! a)) [0..<length xs]
         = map (\<lambda>(x, y, z). F x y z) (zip xs (zip ys zs))"
  using assms by (intro nth_equalityI) simp_all

lemma masked_loss_rows:
  assumes "wf_batch K S it logits"
  shows "map (\<lambda>(i, j). cross_entropy (logits ! i ! j) (target it ! i ! j))
             (valid_positions (input_sess_length it) S)
         = concat (map (\<lambda>(n, tr, lr). map (\<lambda>j. cross_entropy (lr ! j) (tr ! j))
                                            (filter (\<lambda>j. int j < n) [0..<S]))
                       (zip (input_sess_length it) (zip (target it) logits)))"
proof -
  have len: "length (target it) = length (input_sess_length it)"
            "length logits = length (input_sess_length it)"
    using assms by (simp_all add: wf_batch_def)
  have "map (\<lambda>(i, j). cross_entropy (logits ! i ! j) (target it ! i ! j))
            (valid_positions (input_sess_length it) S)
        = concat (map (\<lambda>a. map (\<lambda>j. cross_entropy (logits ! a ! j) (target it ! a ! j))
                                 (filter (\<lambda>j. int j < input_sess_length it ! a) [0..<S]))
                      [0..<length (input_sess_length it)])"
    by (simp add: valid_positions_rows map_concat comp_def)
  also have "\<dots> = concat (map (\<lambda>(n, tr, lr). map (\<lambda>j. cross_entropy (lr ! j) (tr ! j))
                                            (filter (\<lambda>j. int j < n) [0..<S]))
                       (zip (input_sess_length it) (zip (target it) logits)))"
    using map_upt_zip3[OF len, of "\<lambda>n tr lr. map (\<lambda>j. cross_entropy (lr ! j) (tr ! j))
                                            (filter (\<lambda>j. int j < n) [0..<S])"]
    by simp
  finally show ?thesis .
qed

lemma hmodel_loss_remove_session:
  assumes "wf_batch K S it logits" and "i < length (target it)"
    and "input_sess_length it ! i = 0"
  shows "hmodel_compute_loss (remove_session i it) (drop_nth i logits)
         = hmodel_compute_loss it logits"
proof -
  let ?h = "\<lambda>(n, tr, lr). map (\<lambda>j. cross_entropy (lr ! j) (tr ! j))
                                (filter (\<lambda>j. int j < n) [0..<S])"
  let ?Z = "zip (input_sess_length it) (zip (target it) logits)"
  have len: "length (target it) = length (input_sess_length it)"
            "length logits = length (input_sess_length it)"
    using assms(1) by (simp_all add: wf_batch_def)
  have wf': "wf_batch K S (remove_session i it) (drop_nth i logits)"
    using assms(1) by (rule wf_batch_remove_session)
  have Z': "zip (input_sess_length (remove_session i it))
                (zip (target (remove_session i it)) (drop_nth i logits)) = drop_nth i ?Z"
    using len by (simp add: remove_session_def zip_drop_nth)
  have iZ: "i < length ?Z" using assms(2) len by simp
  then have "?h (?Z ! i) = []" using assms(3) by simp
  with iZ have "concat (map ?h (drop_nth i ?Z)) = concat (map ?h ?Z)"
    by (rule concat_map_drop_nth)
  then show ?thesis
    using hmodel_compute_loss_char_all[OF assms(1)] hmodel_compute_loss_char_all[OF wf']
    by (simp only: masked_loss_rows[OF assms(1)] masked_loss_rows[OF wf'] Z')
qed

lemma crf_log_likelihood_wf:
  assumes "wf_batch (length T) S it logits" and "0 < S"
  shows "crf_log_likelihood logits (target it) (input_sess_length it) T
         = Inr (map (\<lambda>(x, tags, n). crf_unary_score tags n x + crf_binary_score tags n T
                                       - crf_log_norm x n T)
                    (zip logits (zip (target it) (input_sess_length it))))"
proof -
  have len: "length (target it) = length logits" "length (input_sess_length it) = length logits"
    using assms(1) by (simp_all add: wf_batch_def)
  have shape: "map length (target it) = map length logits"
    using wf_batch_labels_in_range[OF assms(1)]
    by (auto simp: labels_in_range_def list_all2_conv_all_nth intro: nth_equalityI)
  have "collect (map (\<lambda>(x, tags, n). crf_session_log_likelihood T x tags n)
                     (zip logits (zip (target it) (input_sess_length it))))
        = Inr (map (\<lambda>(x, tags, n). crf_unary_score tags n x + crf_binary_score tags n T
                                      - crf_log_norm x n T)
                   (zip logits (zip (target it) (input_sess_length it))))"
  proof (rule collect_map_Inr)
    fix z assume z: "z \<in> set (zip logits (zip (target it) (input_sess_length it)))"
    obtain x tags n where zz: "z = (x, tags, n)" by (cases z)
    from z zz have "x \<in> set logits" "tags \<in> set (target it)"
      by (auto dest: set_zip_leftD set_zip_rightD)
    with assms have "x \<noteq> []" "list_all (\<lambda>t. 0 \<le> t \<and> t < int (length T)) tags"
      by (auto simp: wf_batch_def list_all_iff)
    then show "(case z of (x, tags, n) \<Rightarrow> crf_session_log_likelihood T x tags n)
               = Inr (case z of (x, tags, n) \<Rightarrow> crf_unary_score tags n x
                        + crf_binary_score tags n T - crf_log_norm x n T)"
      by (simp add: zz crf_session_log_likelihood_def)
  qed
  with shape len show ?thesis by (simp add: crf_log_likelihood_def)
qed

lemma crf_zero_length_term:
  "crf_unary_score tags 0 x + crf_binary_score tags 0 T - crf_log_norm x 0 T = 0"
  by (simp add: crf_unary_score_def crf_binary_score_def crf_log_norm_def)

text \<open>
  C3, as the code has it. In a well-shaped batch with a session of length 0 and at
  least one valid position elsewhere, neither strategy raises and neither divides by
  zero. The independent-softmax loss equals the loss of the batch without that session.
  The chain-structured loss is the mean over all \<open>batch_size\<close> sessions: the zero-length
  session adds 0 to the sum of the negative log-likelihoods but is counted in the
  divisor, so \<open>batch_size\<close> times the loss equals \<open>batch_size - 1\<close> times the loss of the
  batch without it.
\<close>

theorem zero_length_session_loss:
  assumes "wf_batch (length T) S it logits" and "i < length (target it)"
    and "input_sess_length it ! i = 0"
    and "valid_positions (input_sess_length it) S \<noteq> []"
  shows "(\<exists>v. hmodel_compute_loss it logits = Inr (Val v)
            \<and> hmodel_compute_loss (remove_session i it) (drop_nth i logits) = Inr (Val v))
       \<and> (\<exists>v w. crf_compute_loss T self it logits
                   = Inr (Val v, self\<lparr>transition_params := Some T\<rparr>)
               \<and> crf_compute_loss T self (remove_session i it) (drop_nth i logits)
                   = Inr (Val w, self\<lparr>transition_params := Some T\<rparr>)
               \<and> real (length (target it)) * v = real (length (target it) - 1) * w)"
proof
  have "hmodel_compute_loss it logits
        = Inr (reduce_mean (map (\<lambda>(i, j). cross_entropy (logits ! i ! j) (target it ! i ! j))
                                (valid_positions (input_sess_length it) S)))"
    using assms(1) by (rule hmodel_compute_loss_char_all)
  with assms(4) obtain v where "hmodel_compute_loss it logits = Inr (Val v)"
    by (simp add: reduce_mean_def)
  then show "\<exists>v. hmodel_compute_loss it logits = Inr (Val v)
            \<and> hmodel_compute_loss (remove_session i it) (drop_nth i logits) = Inr (Val v)"
    using hmodel_loss_remove_session[OF assms(1,2,3)] by simp
next
  let ?g = "\<lambda>(x, tags, n). crf_unary_score tags n x + crf_binary_score tags n T
                             - crf_log_norm x n T"
  let ?Z = "zip logits (zip (target it) (input_sess_length it))"
  let ?B = "length (target it)"
  have len: "length logits = ?B" "length (input_sess_length it) = ?B"
    using assms(1) by (simp_all add: wf_batch_def)
  obtain a j where "(a, j) \<in> set (valid_positions (input_sess_length it) S)"
    using assms(4) by (cases "valid_positions (input_sess_length it) S") auto
  then have a: "a < ?B" "j < S" "int j < input_sess_length it ! a"
    using len by (simp_all add: valid_positions_set)
  then have "a \<noteq> i" using assms(3) by auto
  with a(1) assms(2) have B2: "2 \<le> ?B" by linarith
  have S: "0 < S" using a(2) by simp
  have wf': "wf_batch (length T) S (remove_session i it) (drop_nth i logits)"
    using assms(1) by (rule wf_batch_remove_session)
  have Z': "zip (drop_nth i logits)
                (zip (target (remove_session i it)) (input_sess_length (remove_session i it)))
            = drop_nth i ?Z"
    using len by (simp add: remove_session_def zip_drop_nth)
  have iZ: "i < length ?Z" using assms(2) len by simp
  have lenZ: "length ?Z = ?B" using len by simp
  have "(\<lambda>z. - ?g z) (?Z ! i) = 0"
    using iZ assms(2,3) len by (simp add: crf_zero_length_term)
  with iZ have sum: "sum_list (map (\<lambda>z. - ?g z) (drop_nth i ?Z)) = sum_list (map (\<lambda>z. - ?g z) ?Z)"
    by (rule sum_list_map_drop_nth)
  let ?v = "sum_list (map (\<lambda>z. - ?g z) ?Z) / real ?B"
  let ?w = "sum_list (map (\<lambda>z. - ?g z) (drop_nth i ?Z)) / real (?B - 1)"
  have ne: "?Z \<noteq> []" "drop_nth i ?Z \<noteq> []"
    using lenZ B2 length_drop_nth[OF iZ] by auto
  have v: "crf_compute_loss T self it logits = Inr (Val ?v, self\<lparr>transition_params := Some T\<rparr>)"
    using ne(1) lenZ
    by (simp add: crf_compute_loss_def crf_log_likelihood_wf[OF assms(1) S] reduce_mean_def comp_def)
  have w: "crf_compute_loss T self (remove_session i it) (drop_nth i logits)
           = Inr (Val ?w, self\<lparr>transition_params := Some T\<rparr>)"
    using ne(2) lenZ length_drop_nth[OF iZ]
    by (simp add: crf_compute_loss_def crf_log_likelihood_wf[OF wf' S] Z' reduce_mean_def comp_def)
  have "real ?B * ?v = real (?B - 1) * ?w"
    using B2 sum by simp
  with v w show "\<exists>v w. crf_compute_loss T self it logits
                   = Inr (Val v, self\<lparr>transition_params := Some T\<rparr>)
               \<and> crf_compute_loss T self (remove_session i it) (drop_nth i logits)
                   = Inr (Val w, self\<lparr>transition_params := Some T\<rparr>)
               \<and> real (length (target it)) * v = real (length (target it) - 1) * w"
    by blast
qed

theorem zero_length_session_loss_witness:
  "(\<exists>v. hmodel_compute_loss
            \<lparr>input = ([] :: int tensor3), target = [[0, 0], [0, 0]], input_sess_length = [1, 0],
              input_uttr_length = []\<rparr> [[[0, 0], [0, 0]], [[1, 1], [0, 0]]] = Inr (Val v)
        \<and> hmodel_compute_loss
            (remove_session 1 \<lparr>input = ([] :: int tensor3), target = [[0, 0], [0, 0]],
                                input_sess_length = [1, 0], input_uttr_length = []\<rparr>)
            (drop_nth 1 [[[0, 0], [0, 0]], [[1, 1], [0, 0]]]) = Inr (Val v))
   \<and> (\<exists>v w. crf_compute_loss [[0, 0], [0, 0]]
                \<lparr>batch_size = 2, mode = TRAIN, self_logits = None, transition_params = None\<rparr>
                \<lparr>input = ([] :: int tensor3), target = [[0, 0], [0, 0]], input_sess_length = [1, 0],
                  input_uttr_length = []\<rparr> [[[0, 0], [0, 0]], [[1, 1], [0, 0]]]
              = Inr (Val v, \<lparr>batch_size = 2, mode = TRAIN, self_logits = None,
                              transition_params = None\<rparr>
                             \<lparr>transition_params := Some [[0, 0], [0, 0]]\<rparr>)
          \<and> crf_compute_loss [[0, 0], [0, 0]]
                \<lparr>batch_size = 2, mode = TRAIN, self_logits = None, transition_params = None\<rparr>
                (remove_session 1 \<lparr>input = ([] :: int tensor3), target = [[0, 0], [0, 0]],
                                    input_sess_length = [1, 0], input_uttr_length = []\<rparr>)
                (drop_nth 1 [[[0, 0], [0, 0]], [[1, 1], [0, 0]]])
              = Inr (Val w, \<lparr>batch_size = 2, mode = TRAIN, self_logits = None,
                              transition_params = None\<rparr>
                             \<lparr>transition_params := Some [[0, 0], [0, 0]]\<rparr>)
          \<and> real (length (target \<lparr>input = ([] :: int tensor3), target = [[0, 0], [0, 0]],
                                    input_sess_length = [1, 0], input_uttr_length = []\<rparr>)) * v
            = real (length (target \<lparr>input = ([] :: int tensor3), target = [[0, 0], [0, 0]],
                                      input_sess_length = [1, 0], input_uttr_length = []\<rparr>) - 1) * w)"
proof -
  let ?T = "[[0, 0], [0, 0]] :: real tensor2"
  let ?it = "\<lparr>input = ([] :: int tensor3), target = [[0, 0], [0, 0]], input_sess_length = [1, 0],
               input_uttr_length = []\<rparr>"
  let ?lg = "[[[0, 0], [0, 0]], [[1, 1], [0, 0]]] :: real tensor3"
  have p1: "wf_batch (length ?T) 2 ?it ?lg" by (simp add: wf_batch_def)
  have p2: "1 < length (target ?it)" by simp
  have p3: "input_sess_length ?it ! 1 = 0" by simp
  have p4: "valid_positions (input_sess_length ?it) 2 \<noteq> []"
    by (simp add: valid_positions_def upt_rec[of _ "numeral _"] upt_rec[of 0 "Suc _"])
  show ?thesis by (rule zero_length_session_loss[OF p1 p2 p3 p4])
qed

text \<open>
  C3 as the specification states it fails for the chain-structured strategy: with two classes, zero
  scores, a session of length 1 and a second session of length 0, the loss is
  \<open>ln 2 / 2\<close>, and without the second session it is \<open>ln 2\<close>.
\<close>

theorem crf_zero_length_session_counterexample:
  "input_sess_length \<lparr>input = ([] :: int tensor3), target = [[0, 0], [0, 0]],
                       input_sess_length = [1, 0], input_uttr_length = []\<rparr> ! 1 = 0
   \<and> crf_compute_loss [[0, 0], [0, 0]]
        \<lparr>batch_size = 2, mode = TRAIN, self_logits = None, transition_params = None\<rparr>
        \<lparr>input = ([] :: int tensor3), target = [[0, 0], [0, 0]], input_sess_length = [1, 0],
          input_uttr_length = []\<rparr> [[[0, 0], [0, 0]], [[1, 1], [0, 0]]]
      = Inr (Val (ln 2 / 2),
             \<lparr>batch_size = 2, mode = TRAIN, self_logits = None,
               transition_params = Some [[0, 0], [0, 0]]\<rparr>)
   \<and> crf_compute_loss [[0, 0], [0, 0]]
        \<lparr>batch_size = 2, mode = TRAIN, self_logits = None, transition_params = None\<rparr>
        (remove_session 1 \<lparr>input = ([] :: int tensor3), target = [[0, 0], [0, 0]],
                            input_sess_length = [1, 0], input_uttr_length = []\<rparr>)
        (drop_nth 1 [[[0, 0], [0, 0]], [[1, 1], [0, 0]]])
      = Inr (Val (ln 2),
             \<lparr>batch_size = 2, mode = TRAIN, self_logits = None,
               transition_params = Some [[0, 0], [0, 0]]\<rparr>)
   \<and> ln 2 / 2 \<noteq> (ln 2 :: real)"
  by (simp add: crf_compute_loss_def crf_log_likelihood_def crf_session_log_likelihood_def
                crf_unary_score_def crf_binary_score_def crf_log_norm_def reduce_logsumexp_def
                reduce_mean_def remove_session_def drop_nth_def)

subsection \<open>INFER mode\<close>

lemma build_network_infer:
  assumes "mode self = INFER" and "build_network cls L T hp self it = Inr (logits, loss, self')"
  shows "loss = None \<and> self' = self"
  using assms
  by (auto simp: build_network_def Let_def split: sum.splits if_splits)

lemma hmodel_accessors_defined:
  assumes "cls \<noteq> H_RNN_RNN_CRF"
  shows "compute_labels cls self it logits
           = Inr (map (map (\<lambda>row. int (argmax (softmax row)))) logits)
         \<and> compute_probabilities cls logits = Probs (map (map softmax) logits)"
  using assms
  by (cases cls) (simp_all add: hmodel_compute_labels_def hmodel_compute_probabilities_def comp_def)

lemma crf_compute_labels_unset:
  "transition_params self = None \<Longrightarrow> compute_labels H_RNN_RNN_CRF self it logits = Inl AttributeError"
  by (simp add: crf_compute_labels_def split: option.splits)

text \<open>
  C4. In INFER mode \<open>build_network\<close> returns no loss and leaves the model as it was, and
  the accessors of the independent-softmax classes are functions of the logits alone. The
  chain-structured class's \<open>compute_labels\<close> reads \<open>self.transition_params\<close>, which only
  \<open>compute_loss\<close> assigns, and \<open>build_network\<close> skips \<open>compute_loss\<close> in INFER mode: on
  a model built in INFER mode, with \<open>self.logits\<close> set to the logits that
  \<open>build_network\<close> returned, decoding raises \<open>AttributeError\<close>.
\<close>

theorem crf_infer_compute_labels_raises:
  "build_network H_RNN_RNN_CRF
     \<lparr>utterance_encoder = (\<lambda>hp rows. map (\<lambda>r. [real_of_int (sum_list r)]) rows),
       session_encoder = (\<lambda>hp x. x),
       output_layer = (\<lambda>hp x. map (map (\<lambda>r. r @ r)) x)\<rparr>
     [[0, 0], [0, 0]]
     \<lparr>model_architecture = ''h-rnn-rnn-crf'', vocab_path = Some ''vocab.txt'',
       connect_inp_to_out = False\<rparr>
     \<lparr>batch_size = 1, mode = INFER, self_logits = None, transition_params = None\<rparr>
     \<lparr>input = [[[1, 2], [3, 4::int]]], target = [], input_sess_length = [2],
       input_uttr_length = [[2, 2]]\<rparr>
   = Inr ([[[3, 3], [7, 7]]], None,
          \<lparr>batch_size = 1, mode = INFER, self_logits = None, transition_params = None\<rparr>)
   \<and> compute_labels H_RNN_RNN_CRF
       \<lparr>batch_size = 1, mode = INFER, self_logits = Some [[[3, 3], [7, 7]]],
         transition_params = None\<rparr>
       \<lparr>input = [[[1, 2], [3, 4::int]]], target = [], input_sess_length = [2],
         input_uttr_length = [[2, 2]]\<rparr>
       [[[3, 3], [7, 7]]]
     = Inl AttributeError"
proof -
  let ?it = "\<lparr>input = [[[1, 2], [3, 4::int]]], target = [], input_sess_length = [2],
               input_uttr_length = [[2, 2]]\<rparr>"
  let ?self = "\<lparr>batch_size = 1, mode = INFER, self_logits = None, transition_params = None\<rparr>"
  have r1: "reshape_input ?it = Inr [[1, 2], [3, 4]]"
    using reshape_input_concat[of ?it 2 2] by simp
  have r2: "reshape_utterances_embs ?self ?it [[3], [7]] = Inr [[[3], [7]]]"
    using reshape_utterances_embs_split[of "[[3], [7]]" ?self 2 1 ?it]
    by (simp add: tensor_dim1_def split_rows_def)
  show ?thesis
    by (simp add: build_network_def r1 r2 crf_compute_labels_def del: One_nat_def)
qed

subsection \<open>The best path of the chain-structured decode\<close>

lemma argmax_less: "xs \<noteq> [] \<Longrightarrow> argmax xs < length xs"
  by (induction xs rule: argmax.induct) (auto simp: Let_def)

lemma argmax_max: "j < length xs \<Longrightarrow> xs ! j \<le> xs ! argmax xs"
proof (induction xs arbitrary: j rule: argmax.induct)
  case 1
  then show ?case by simp
next
  case (2 x)
  then show ?case by simp
next
  case (3 x y ys)
  show ?case
  proof (cases j)
    case 0
    then show ?thesis by (auto simp: Let_def)
  next
    case (Suc j')
    with "3.prems" have "(y # ys) ! j' \<le> (y # ys) ! argmax (y # ys)"
      by (intro "3.IH") simp
    with Suc show ?thesis by (auto simp: Let_def)
  qed
qed

lemma reduce_max_argmax: "xs \<noteq> [] \<Longrightarrow> reduce_max xs = xs ! argmax xs"
proof (induction xs rule: argmax.induct)
  case 1
  then show ?case by simp
next
  case (2 x)
  then show ?case by simp
next
  case (3 x y ys)
  then have "reduce_max (y # ys) = (y # ys) ! argmax (y # ys)" by simp
  then show ?case by (auto simp: Let_def max_def)
qed

lemma forward_cell_props:
  assumes "crf_decode_forward_cell T x state = (bp, state')" and "0 < length T" and "b < length T"
  shows "bp ! b < length T"
    and "state' ! b = state ! (bp ! b) + T ! (bp ! b) ! b + x ! b"
    and "a < length T \<Longrightarrow> state ! a + T ! a ! b + x ! b \<le> state' ! b"
    and "length bp = length T" and "length state' = length T"
proof -
  let ?ts = "map (\<lambda>k'. state ! k' + T ! k' ! b) [0..<length T]"
  have ne: "?ts \<noteq> []" using assms(2) by simp
  have bp: "bp ! b = argmax ?ts" and st: "state' ! b = x ! b + reduce_max ?ts"
    using assms(1,3) by (auto simp: crf_decode_forward_cell_def Let_def)
  have lt: "argmax ?ts < length T" using argmax_less[OF ne] by simp
  then show "bp ! b < length T" by (simp add: bp)
  show "state' ! b = state ! (bp ! b) + T ! (bp ! b) ! b + x ! b"
    using lt by (simp add: st bp reduce_max_argmax[OF ne])
  show "state ! a + T ! a ! b + x ! b \<le> state' ! b" if "a < length T"
  proof -
    have "?ts ! a \<le> ?ts ! argmax ?ts" using that by (intro argmax_max) simp
    then show ?thesis using that by (simp add: st reduce_max_argmax[OF ne])
  qed
  show "length bp = length T" "length state' = length T"
    using assms(1) by (auto simp: crf_decode_forward_cell_def Let_def)
qed

lemma crf_decode_backward_snoc:
  "crf_decode_backward t (ys @ [bp])
   = crf_decode_backward t ys @ [bp ! last (t # crf_decode_backward t ys)]"
  by (induction ys arbitrary: t) simp_all

lemma backtrack_Nil: "backtrack [] t = [t]"
  by (simp add: backtrack_def)

lemma backtrack_Cons: "backtrack (bp # bps) t = bp ! hd (backtrack bps t) # backtrack bps t"
  by (simp add: backtrack_def crf_decode_backward_snoc hd_rev)

lemma crf_decode_forward_Cons:
  assumes "crf_decode_forward T \<alpha> (x # xs) = (bps, last_score)"
  obtains bp \<alpha>' bps' where "crf_decode_forward_cell T x \<alpha> = (bp, \<alpha>')"
    and "crf_decode_forward T \<alpha>' xs = (bps', last_score)" and "bps = bp # bps'"
  using assms by (auto split: prod.splits)

lemma backtrack_achieves:
  assumes "crf_decode_forward T \<alpha> xs = (bps, last_score)" and "t < length T"
  shows "is_path (length T) (Suc (length xs)) (backtrack bps t)
         \<and> start_score T \<alpha> xs (backtrack bps t) = last_score ! t"
  using assms(1)
proof (induction xs arbitrary: \<alpha> bps)
  case Nil
  then show ?case using assms(2)
    by (simp add: backtrack_Nil is_path_def start_score_def)
next
  case (Cons x xs)
  from Cons.prems obtain bp \<alpha>' bps' where cell: "crf_decode_forward_cell T x \<alpha> = (bp, \<alpha>')"
    and fwd: "crf_decode_forward T \<alpha>' xs = (bps', last_score)" and bps: "bps = bp # bps'"
    by (rule crf_decode_forward_Cons)
  let ?P = "backtrack bps' t"
  from Cons.IH[OF fwd] have path: "is_path (length T) (Suc (length xs)) ?P"
    and score: "start_score T \<alpha>' xs ?P = last_score ! t" by simp_all
  from path obtain h r where P: "?P = h # r" by (cases ?P) (auto simp: is_path_def)
  with path have h: "h < length T" by (simp add: is_path_def)
  have K: "0 < length T" using assms(2) by linarith
  note props = forward_cell_props[OF cell K h]
  have "is_path (length T) (Suc (length (x # xs))) (backtrack bps t)"
    using path props(1) by (simp add: bps backtrack_Cons P is_path_def)
  moreover have "start_score T \<alpha> (x # xs) (backtrack bps t) = last_score ! t"
    using score props(2) by (simp add: bps backtrack_Cons P start_score_def)
  ultimately show ?case by simp
qed

lemma start_score_bound:
  assumes "crf_decode_forward T \<alpha> xs = (bps, last_score)"
    and "is_path (length T) (Suc (length xs)) q"
  shows "start_score T \<alpha> xs q \<le> last_score ! last q"
  using assms
proof (induction xs arbitrary: \<alpha> bps q)
  case Nil
  then obtain a where "q = [a]" by (cases q) (auto simp: is_path_def)
  with Nil show ?case by (simp add: start_score_def)
next
  case (Cons x xs)
  from Cons.prems(1) obtain bp \<alpha>' bps' where cell: "crf_decode_forward_cell T x \<alpha> = (bp, \<alpha>')"
    and fwd: "crf_decode_forward T \<alpha>' xs = (bps', last_score)" and bps: "bps = bp # bps'"
    by (rule crf_decode_forward_Cons)
  from Cons.prems(2) obtain a b r where q: "q = a # b # r"
    by (cases q; cases "tl q") (auto simp: is_path_def)
  with Cons.prems(2) have a: "a < length T" and b: "b < length T"
    and path': "is_path (length T) (Suc (length xs)) (b # r)"
    by (simp_all add: is_path_def)
  have K: "0 < length T" using a by linarith
  have "start_score T \<alpha> (x # xs) q = \<alpha> ! a + T ! a ! b + x ! b + tail_score T b xs r"
    by (simp add: q start_score_def)
  also have "\<dots> \<le> \<alpha>' ! b + tail_score T b xs r"
    using forward_cell_props(3)[OF cell K b a] by simp
  also have "\<dots> = start_score T \<alpha>' xs (b # r)" by (simp add: start_score_def)
  also have "\<dots> \<le> last_score ! last (b # r)" using fwd path' by (rule Cons.IH)
  finally show ?case by (simp add: q)
qed

lemma crf_decode_forward_length:
  assumes "crf_decode_forward T \<alpha> xs = (bps, last_score)" and "length \<alpha> = length T"
    and "0 < length T"
  shows "length last_score = length T \<and> length bps = length xs"
  using assms(1,2)
proof (induction xs arbitrary: \<alpha> bps)
  case Nil
  then show ?case by simp
next
  case (Cons x xs)
  from Cons.prems(1) obtain bp \<alpha>' bps' where cell: "crf_decode_forward_cell T x \<alpha> = (bp, \<alpha>')"
    and fwd: "crf_decode_forward T \<alpha>' xs = (bps', last_score)" and bps: "bps = bp # bps'"
    by (rule crf_decode_forward_Cons)
  have "length \<alpha>' = length T" using forward_cell_props(5)[OF cell assms(3) assms(3)] .
  with Cons.IH[OF fwd] show ?case by (simp add: bps)
qed

lemma last_is_path: "is_path K (Suc n) q \<Longrightarrow> last q < K"
  by (cases q rule: rev_cases) (auto simp: is_path_def)

lemma viterbi_optimal:
  assumes "crf_decode_forward T \<alpha> xs = (bps, last_score)" and "length \<alpha> = length T"
    and "0 < length T"
  shows "is_path (length T) (Suc (length xs)) (backtrack bps (argmax last_score))
         \<and> (\<forall>q. is_path (length T) (Suc (length xs)) q
               \<longrightarrow> start_score T \<alpha> xs q
                   \<le> start_score T \<alpha> xs (backtrack bps (argmax last_score)))"
proof -
  have len: "length last_score = length T"
    using crf_decode_forward_length[OF assms] by simp
  with assms(3) have "last_score \<noteq> []" by auto
  then have "argmax last_score < length last_score" by (rule argmax_less)
  then have t: "argmax last_score < length T" by (simp only: len)
  note ach = backtrack_achieves[OF assms(1) t]
  have "start_score T \<alpha> xs q \<le> start_score T \<alpha> xs (backtrack bps (argmax last_score))"
    if q: "is_path (length T) (Suc (length xs)) q" for q
  proof -
    have "start_score T \<alpha> xs q \<le> last_score ! last q"
      using assms(1) q by (rule start_score_bound)
    also have "\<dots> \<le> last_score ! argmax last_score"
      using last_is_path[OF q] len by (intro argmax_max) simp
    finally show ?thesis using ach by simp
  qed
  with ach show ?thesis by blast
qed

lemma sum_list_upt_Suc_shift:
  fixes f :: "nat \<Rightarrow> real"
  shows "sum_list (map f [0..<Suc n]) = f 0 + sum_list (map (\<lambda>j. f (Suc j)) [0..<n])"
proof -
  have "[0..<Suc n] = 0 # map Suc [0..<n]"
    by (simp add: upt_conv_Cons map_Suc_upt del: upt_Suc)
  then show ?thesis by (simp add: comp_def del: upt_Suc)
qed

lemma path_score_single: "path_score T (x0 # xs) [a] = x0 ! a"
  by (simp add: path_score_def)

lemma path_score_Cons2:
  "path_score T (x0 # xs) (a # b # r) = x0 ! a + T ! a ! b + path_score T xs (b # r)"
proof -
  have "sum_list (map (\<lambda>j. (x0 # xs) ! j ! ((a # b # r) ! j)) [0..<Suc (Suc (length r))])
        = x0 ! a + sum_list (map (\<lambda>j. xs ! j ! ((b # r) ! j)) [0..<Suc (length r)])"
    by (subst sum_list_upt_Suc_shift) simp
  moreover have "sum_list (map (\<lambda>j. T ! ((a # b # r) ! j) ! ((a # b # r) ! Suc j)) [0..<Suc (length r)])
        = T ! a ! b + sum_list (map (\<lambda>j. T ! ((b # r) ! j) ! ((b # r) ! Suc j)) [0..<length r])"
    by (subst sum_list_upt_Suc_shift) simp
  ultimately show ?thesis by (simp add: path_score_def del: upt_Suc)
qed

lemma path_score_tail:
  "length r \<le> length xs \<Longrightarrow> path_score T (x0 # xs) (a # r) = x0 ! a + tail_score T a xs r"
proof (induction r arbitrary: a x0 xs)
  case Nil
  then show ?case by (simp add: path_score_single)
next
  case (Cons b r)
  then obtain x1 xs' where xs: "xs = x1 # xs'" by (cases xs) auto
  with Cons.prems have "length r \<le> length xs'" by simp
  then have "path_score T (x1 # xs') (b # r) = x1 ! b + tail_score T b xs' r"
    by (rule Cons.IH)
  then show ?case by (simp add: xs path_score_Cons2)
qed

lemma tail_score_take: "tail_score T a (take (length r) xs) r = tail_score T a xs r"
proof (induction r arbitrary: a xs)
  case Nil
  then show ?case by simp
next
  case (Cons b r)
  then show ?case by (cases xs) simp_all
qed

lemma path_score_start_score:
  assumes "is_path K (Suc m) p" and "m \<le> length xs"
  shows "path_score T (x0 # xs) p = start_score T x0 (take m xs) p"
proof -
  from assms(1) obtain a r where p: "p = a # r" and r: "length r = m"
    by (cases p) (auto simp: is_path_def)
  have "path_score T (x0 # xs) (a # r) = x0 ! a + tail_score T a xs r"
    using assms(2) r by (intro path_score_tail) simp
  also have "\<dots> = x0 ! a + tail_score T a (take (length r) xs) r"
    by (simp only: tail_score_take)
  finally show ?thesis by (simp add: p r start_score_def)
qed

lemma length_crf_decode_backward: "length (crf_decode_backward t bps) = length bps"
  by (induction bps arbitrary: t) simp_all

lemma length_backtrack: "length (backtrack bps t) = Suc (length bps)"
  by (simp add: backtrack_def length_crf_decode_backward)

lemma crf_decode_forward_bps_length:
  "crf_decode_forward T \<alpha> xs = (bps, last_score) \<Longrightarrow> length bps = length xs"
  by (induction xs arbitrary: \<alpha> bps) (auto split: prod.splits)

lemma crf_decode_session_take:
  assumes "0 < n" and "n \<le> int (length (x0 # inputs))"
    and "crf_decode_forward T x0 (take (nat n - 1) inputs) = (bps, last_score)"
  shows "\<exists>ys. crf_decode_session T (x0 # inputs) n = Inr ys
              \<and> take (nat n) ys = map int (backtrack bps (argmax last_score))"
proof -
  define m where "m = nat n - 1"
  define t where "t = argmax last_score"
  define zs where "zs = replicate (length inputs - m) (replicate (length T) (0::nat))"
  define z where "z = replicate (length inputs - m) (0::nat)"
  have m: "m \<le> length inputs" using assms(1,2) by (simp add: m_def)
  have mx: "nat (max 0 (n - 1)) = m" using assms(1) by (simp add: m_def)
  have mx': "nat (n - 1) = m" using assms(1) by (simp add: m_def)
  have n: "nat n = Suc m" using assms(1) by (simp add: m_def)
  have fwd: "crf_decode_forward T x0 (take m inputs) = (bps, last_score)"
    using assms(3) by (simp only: m_def)
  have lb: "length bps = m"
    using crf_decode_forward_bps_length[OF fwd] m by simp
  have bp: "take m (reverse_sequence (bps @ zs) m) = rev bps"
    using lb by (simp add: reverse_sequence_def)
  have "take (Suc m) (t # crf_decode_backward t (rev bps) @ z) = t # crf_decode_backward t (rev bps)"
    using lb by (simp add: length_crf_decode_backward)
  then have "take (Suc m) (reverse_sequence (t # crf_decode_backward t (rev bps) @ z) (Suc m))
             = backtrack bps t"
    using lb by (simp add: reverse_sequence_def backtrack_def length_crf_decode_backward)
  then have tk: "take (nat n) (map int (reverse_sequence
                   (t # crf_decode_backward t (take m (reverse_sequence (bps @ zs) m)) @ z) (nat n)))
                 = map int (backtrack bps t)"
    by (simp only: n take_map bp)
  have "crf_decode_session T (x0 # inputs) n
        = Inr (map int (reverse_sequence
                 (t # crf_decode_backward t (take m (reverse_sequence (bps @ zs) m)) @ z) (nat n)))"
    using assms(1,2)
    by (simp add: crf_decode_session_def mx mx' fwd Let_def t_def zs_def z_def del: upt_Suc)
  with tk show ?thesis unfolding t_def by blast
qed

lemma crf_decode_session_optimal:
  assumes "0 < length T" and "potentials \<noteq> []" and "length (hd potentials) = length T"
    and "0 \<le> n" and "n \<le> int (length potentials)"
  shows "\<exists>ys. crf_decode_session T potentials n = Inr ys
              \<and> is_path (length T) (nat n) (map nat (take (nat n) ys))
              \<and> (\<forall>q. is_path (length T) (nat n) q
                    \<longrightarrow> path_score T potentials q
                        \<le> path_score T potentials (map nat (take (nat n) ys)))"
proof -
  from assms(2) obtain x0 inputs where pot: "potentials = x0 # inputs" by (cases potentials) auto
  with assms(3) have x0: "length x0 = length T" by simp
  show ?thesis
  proof (cases "n = 0")
    case True
    have "\<exists>ys. crf_decode_session T potentials n = Inr ys"
      by (simp add: pot True crf_decode_session_def Let_def split: prod.splits)
    then show ?thesis by (auto simp: True is_path_def)
  next
    case False
    with assms(4) have pos: "0 < n" by simp
    define m where "m = nat n - 1"
    have n: "nat n = Suc m" using pos by (simp add: m_def)
    have m: "m \<le> length inputs" using pos assms(5) by (simp add: m_def pot)
    obtain bps last_score
      where fwd: "crf_decode_forward T x0 (take (nat n - 1) inputs) = (bps, last_score)"
      by (cases "crf_decode_forward T x0 (take (nat n - 1) inputs)")
    define p where "p = backtrack bps (argmax last_score)"
    from crf_decode_session_take[OF pos assms(5)[unfolded pot] fwd]
    obtain ys where ys: "crf_decode_session T potentials n = Inr ys"
      and tk: "take (nat n) ys = map int p" by (auto simp: pot p_def)
    have p: "map nat (take (nat n) ys) = p" by (simp add: tk comp_def)
    have len: "length (take (nat n - 1) inputs) = m" using m by (simp add: m_def)
    from viterbi_optimal[OF fwd x0 assms(1)]
    have path: "is_path (length T) (Suc m) p"
      and best: "\<And>q. is_path (length T) (Suc m) q
                   \<Longrightarrow> start_score T x0 (take m inputs) q \<le> start_score T x0 (take m inputs) p"
      unfolding len p_def by (simp_all add: m_def)
    have opt: "path_score T potentials q \<le> path_score T potentials p"
      if q: "is_path (length T) (nat n) q" for q
    proof -
      from q have q': "is_path (length T) (Suc m) q" by (simp only: n)
      have "path_score T potentials q = start_score T x0 (take m inputs) q"
        unfolding pot using q' m by (rule path_score_start_score)
      also have "\<dots> \<le> start_score T x0 (take m inputs) p" using q' by (rule best)
      also have "\<dots> = path_score T potentials p"
        unfolding pot using path m by (rule path_score_start_score[symmetric])
      finally show ?thesis .
    qed
    show ?thesis
    proof (intro exI[of _ ys] conjI allI impI)
      show "crf_decode_session T potentials n = Inr ys" by fact
      have "is_path (length T) (nat n) p" using path by (simp only: n)
      then show "is_path (length T) (nat n) (map nat (take (nat n) ys))"
        unfolding p .
      fix q assume "is_path (length T) (nat n) q"
      then show "path_score T potentials q
                 \<le> path_score T potentials (map nat (take (nat n) ys))"
        unfolding p by (rule opt)
    qed
  qed
qed

lemma collect_map_exists:
  assumes "\<And>x. x \<in> set xs \<Longrightarrow> \<exists>y. f x = Inr y"
  shows "\<exists>ys. collect (map f xs) = Inr ys \<and> length ys = length xs
              \<and> (\<forall>i<length xs. f (xs ! i) = Inr (ys ! i))"
  using assms
proof (induction xs)
  case Nil
  then show ?case by simp
next
  case (Cons x xs)
  then obtain y where y: "f x = Inr y" by auto
  from Cons obtain ys where ys: "collect (map f xs) = Inr ys" "length ys = length xs"
    "\<forall>i<length xs. f (xs ! i) = Inr (ys ! i)" by auto
  have "\<forall>i<length (x # xs). f ((x # xs) ! i) = Inr ((y # ys) ! i)"
    using y ys(3) by (auto simp: nth_Cons split: nat.splits)
  with y ys(1,2) show ?case by (intro exI[of _ "y # ys"]) simp
qed

text \<open>
  C6. The chain-structured decode returns, for every session, a label sequence whose
  first \<open>session_length\<close> entries form a path of maximal total score among all label
  paths of that length: a global best path, not a per-position arg-max. The method decodes
  \<open>self.logits\<close> with \<open>self.transition_params\<close>.
\<close>

theorem crf_decode_best_path:
  assumes "self_logits self = Some lg" and "transition_params self = Some T"
    and "wf_decode T lg (input_sess_length it)"
  shows "\<exists>ys. compute_labels H_RNN_RNN_CRF self it logits = Inr ys \<and> length ys = length lg
              \<and> (\<forall>i<length lg.
                    is_path (length T) (nat (input_sess_length it ! i))
                            (map nat (take (nat (input_sess_length it ! i)) (ys ! i)))
                    \<and> (\<forall>q. is_path (length T) (nat (input_sess_length it ! i)) q
                          \<longrightarrow> path_score T (lg ! i) q
                              \<le> path_score T (lg ! i)
                                   (map nat (take (nat (input_sess_length it ! i)) (ys ! i)))))"
proof -
  let ?lens = "input_sess_length it"
  let ?f = "\<lambda>(p, n). crf_decode_session T p n"
  have K: "0 < length T" and all2: "list_all2 (\<lambda>x n. x \<noteq> [] \<and> list_all (\<lambda>row. length row = length T) x
                         \<and> 0 \<le> n \<and> n \<le> int (length x)) lg ?lens"
    using assms(3) by (simp_all add: wf_decode_def)
  have len: "length ?lens = length lg" using all2 by (simp add: list_all2_lengthD)
  have sess: "\<exists>ys. crf_decode_session T x n = Inr ys
              \<and> is_path (length T) (nat n) (map nat (take (nat n) ys))
              \<and> (\<forall>q. is_path (length T) (nat n) q
                    \<longrightarrow> path_score T x q \<le> path_score T x (map nat (take (nat n) ys)))"
    if "(x, n) \<in> set (zip lg ?lens)" for x n
  proof -
    from all2 that have h: "x \<noteq> []" "list_all (\<lambda>row. length row = length T) x"
      "0 \<le> n" "n \<le> int (length x)"
      by (auto dest: list_all2_zipD)
    from h(1,2) have "length (hd x) = length T" by (cases x) simp_all
    with K h show ?thesis by (intro crf_decode_session_optimal)
  qed
  have "\<exists>ys. collect (map ?f (zip lg ?lens)) = Inr ys \<and> length ys = length (zip lg ?lens)
              \<and> (\<forall>i<length (zip lg ?lens). ?f (zip lg ?lens ! i) = Inr (ys ! i))"
  proof (rule collect_map_exists)
    fix z assume z: "z \<in> set (zip lg ?lens)"
    obtain x n where zz: "z = (x, n)" by (cases z)
    from sess[of x n] z zz obtain y where "crf_decode_session T x n = Inr y" by blast
    then show "\<exists>y. ?f z = Inr y" by (simp add: zz)
  qed
  then obtain ys where ys: "collect (map ?f (zip lg ?lens)) = Inr ys" "length ys = length lg"
    and nth: "\<And>i. i < length lg \<Longrightarrow> crf_decode_session T (lg ! i) (?lens ! i) = Inr (ys ! i)"
    using len by auto
  have "compute_labels H_RNN_RNN_CRF self it logits = Inr ys"
    using ys(1) len by (simp add: crf_compute_labels_def assms(1,2) crf_decode_def)
  moreover have "is_path (length T) (nat (?lens ! i)) (map nat (take (nat (?lens ! i)) (ys ! i)))
                 \<and> (\<forall>q. is_path (length T) (nat (?lens ! i)) q
                       \<longrightarrow> path_score T (lg ! i) q
                           \<le> path_score T (lg ! i) (map nat (take (nat (?lens ! i)) (ys ! i))))"
    if i: "i < length lg" for i
  proof -
    have "(lg ! i, ?lens ! i) \<in> set (zip lg ?lens)"
      using i len by (auto simp: set_zip)
    from sess[OF this] nth[OF i] show ?thesis by auto
  qed
  ultimately show ?thesis using ys(2) by blast
qed

theorem crf_decode_best_path_witness:
  "compute_labels H_RNN_RNN_CRF
     \<lparr>batch_size = 1, mode = EVAL, self_logits = Some [[[1, 0], [1, 0], [0, 0]]],
       transition_params = Some [[0, 5], [0, 0]]\<rparr>
     \<lparr>input = ([] :: int tensor3), target = [], input_sess_length = [2],
       input_uttr_length = []\<rparr> [] = Inr [[0, 1, 0]]
   \<and> (\<exists>ys. compute_labels H_RNN_RNN_CRF
              \<lparr>batch_size = 1, mode = EVAL, self_logits = Some [[[1, 0], [1, 0], [0, 0]]],
                transition_params = Some [[0, 5], [0, 0]]\<rparr>
              \<lparr>input = ([] :: int tensor3), target = [], input_sess_length = [2],
                input_uttr_length = []\<rparr> [] = Inr ys
           \<and> length ys = length [[[1, 0], [1, 0], [0, 0 :: real]]]
           \<and> (\<forall>i<length [[[1, 0], [1, 0], [0, 0 :: real]]].
                 is_path (length [[0, 5], [0, 0 :: real]]) (nat ([2] ! i))
                         (map nat (take (nat ([2] ! i)) (ys ! i)))
                 \<and> (\<forall>q. is_path (length [[0, 5], [0, 0 :: real]]) (nat ([2] ! i)) q
                       \<longrightarrow> path_score [[0, 5], [0, 0]] ([[[1, 0], [1, 0], [0, 0]]] ! i) q
                           \<le> path_score [[0, 5], [0, 0]] ([[[1, 0], [1, 0], [0, 0]]] ! i)
                                (map nat (take (nat ([2] ! i)) (ys ! i))))))"
proof -
  let ?self = "\<lparr>batch_size = 1, mode = EVAL, self_logits = Some [[[1, 0], [1, 0], [0, 0]]],
                 transition_params = Some [[0, 5], [0, 0]]\<rparr>"
  let ?it = "\<lparr>input = ([] :: int tensor3), target = [], input_sess_length = [2],
               input_uttr_length = []\<rparr>"
  have p1: "self_logits ?self = Some [[[1, 0], [1, 0], [0, 0]]]" by simp
  have p2: "transition_params ?self = Some [[0, 5], [0, 0]]" by simp
  have p3: "wf_decode [[0, 5], [0, 0]] [[[1, 0], [1, 0], [0, 0]]] (input_sess_length ?it)"
    by (simp add: wf_decode_def)
  have ev: "compute_labels H_RNN_RNN_CRF ?self ?it [] = Inr [[0, 1, 0]]"
    by (simp add: crf_compute_labels_def crf_decode_def crf_decode_session_def
                  crf_decode_forward_cell_def reverse_sequence_def Let_def
                  upt_rec[of _ "numeral _"] upt_rec[of 0 "Suc _"] numeral_2_eq_2)
  from crf_decode_best_path[OF p1 p2 p3, of "[]"] ev show ?thesis by simp
qed

subsection \<open>The decoded label of the independent-softmax strategy\<close>





subsection \<open>The vocabulary check\<close>

lemma check_hparams_raises:
  "check_hparams hp = Inl ValueError \<longleftrightarrow>
     (model_architecture hp = ''h-rnn-rnn'' \<or> model_architecture hp = ''h-cnn-rnn'')
     \<and> vocab_path hp = None"
  by (simp add: check_hparams_def)

text \<open>
  C5. A sequential utterance encoder without a vocabulary must be rejected for each
  architecture name of the command line, \<open>h-rnn-rnn\<close> and \<open>h-rnn-cnn\<close>. The check compares
  the name with \<open>h-cnn-rnn\<close>, so for \<open>h-rnn-cnn\<close> with no vocabulary it returns normally:
  no error is raised.
\<close>

theorem check_hparams_h_rnn_cnn_passes:
  "check_hparams \<lparr>model_architecture = ''h-rnn-cnn'', vocab_path = None,
                   connect_inp_to_out = False\<rparr> = Inr ()"
  by (simp add: check_hparams_def)

subsection \<open>Probabilities of the chain-structured variant\<close>

text \<open>
  C7. For the chain-structured class the probabilities accessor is a no-op for every
  input: it never returns a per-class distribution.
\<close>

theorem crf_probabilities_no_op:
  "compute_probabilities H_RNN_RNN_CRF logits = NoOp
   \<and> (\<forall>p. compute_probabilities H_RNN_RNN_CRF logits \<noteq> Probs p)"
  by (simp add: crf_compute_probabilities_def)

end
